theory Spec2Isabelle
  imports Main "HOL-Library.Char_ord" "HOL-Library.List_Lexorder" "HOL-Library.Multiset"
begin

section \<open>Values, exceptions and the store of ticket objects\<close>

text \<open>
  Tickets and audit-log entries are the dictionaries that \<^verbatim>\<open>response.json()\<close> returns, so
  their fields hold JSON values. JSON numbers are modelled by the integers (a fractional
  number, a Python float, is outside the model); strings are byte strings (UTF-8), whose
  lexicographic order is Python's code-point order.
\<close>

datatype json =
    JNull
  | JBool bool
  | JInt int
  | JStr string
  | JList "json list"
  | JObj "(string \<times> json) list"

text \<open>The Python exceptions the two functions can raise; \<open>KeyError\<close> carries the key.\<close>

datatype exn = KeyError string | TypeError | AttributeError | ValueError

text \<open>
  A dictionary is an association list in insertion order with distinct keys. A ticket is a
  dictionary object: the ticket list, the buckets, the risk list and the list of recently
  done tickets hold references (addresses) to the same objects, and the store maps every
  address to the dictionary that lives there.
\<close>

type_synonym dict = "(string \<times> json) list"
type_synonym addr = nat
type_synonym heap = "addr \<Rightarrow> dict"

text \<open>\<^verbatim>\<open>d[k]\<close>: raises \<open>KeyError\<close> when the key is absent.\<close>

definition dict_getitem :: "(string \<times> 'v) list \<Rightarrow> string \<Rightarrow> exn + 'v" where
  "dict_getitem d k = (case map_of d k of None \<Rightarrow> Inl (KeyError k) | Some v \<Rightarrow> Inr v)"

text \<open>\<^verbatim>\<open>d.get(k, default)\<close> on a dictionary.\<close>

definition dict_get :: "(string \<times> 'v) list \<Rightarrow> string \<Rightarrow> 'v \<Rightarrow> 'v" where
  "dict_get d k dflt = (case map_of d k of None \<Rightarrow> dflt | Some v \<Rightarrow> v)"

text \<open>\<^verbatim>\<open>d[k] = v\<close>: an existing key keeps its position, a new key goes last.\<close>

fun dict_setitem :: "(string \<times> 'v) list \<Rightarrow> string \<Rightarrow> 'v \<Rightarrow> (string \<times> 'v) list" where
  "dict_setitem [] k v = [(k, v)]"
| "dict_setitem ((k', v') # d) k v =
     (if k' = k then (k, v) # d else (k', v') # dict_setitem d k v)"

text \<open>
  \<^verbatim>\<open>x.get(k, default)\<close> on an arbitrary value: only a dictionary has the method, every
  other JSON value raises \<open>AttributeError\<close>.
\<close>

fun attr_get :: "json \<Rightarrow> string \<Rightarrow> json \<Rightarrow> exn + json" where
  "attr_get (JObj d) k dflt = Inr (dict_get d k dflt)"
| "attr_get _ k dflt = Inl AttributeError"

text \<open>Truth value of a JSON value in a condition.\<close>

fun truthy :: "json \<Rightarrow> bool" where
  "truthy JNull = False"
| "truthy (JBool b) = b"
| "truthy (JInt i) = (i \<noteq> 0)"
| "truthy (JStr s) = (s \<noteq> [])"
| "truthy (JList xs) = (xs \<noteq> [])"
| "truthy (JObj d) = (d \<noteq> [])"

text \<open>Booleans are integers in Python: \<open>True == 1\<close> and \<open>False == 0\<close>.\<close>

fun num_of :: "json \<Rightarrow> int option" where
  "num_of (JBool b) = Some (if b then 1 else 0)"
| "num_of (JInt i) = Some i"
| "num_of _ = None"

text \<open>
  Python's \<^verbatim>\<open>==\<close> on JSON values: numbers by value, strings and \<open>None\<close> by identity of
  content, lists elementwise, dictionaries as mappings (same number of keys, and every key
  of the left one bound to an equal value on the right).
\<close>

fun py_eq :: "json \<Rightarrow> json \<Rightarrow> bool"
  and py_eq_list :: "json list \<Rightarrow> json list \<Rightarrow> bool"
  and py_eq_items :: "(string \<times> json) list \<Rightarrow> (string \<times> json) list \<Rightarrow> bool" where
  "py_eq JNull y = (y = JNull)"
| "py_eq (JBool b) y = (num_of y = Some (if b then 1 else 0))"
| "py_eq (JInt i) y = (num_of y = Some i)"
| "py_eq (JStr s) y = (y = JStr s)"
| "py_eq (JList xs) y = (case y of JList ys \<Rightarrow> py_eq_list xs ys | _ \<Rightarrow> False)"
| "py_eq (JObj m) y =
     (case y of JObj n \<Rightarrow> length m = length n \<and> py_eq_items m n | _ \<Rightarrow> False)"
| "py_eq_list [] ys = (ys = [])"
| "py_eq_list (x # xs) ys =
     (case ys of [] \<Rightarrow> False | y # ys' \<Rightarrow> py_eq x y \<and> py_eq_list xs ys')"
| "py_eq_items [] n = True"
| "py_eq_items ((k, v) # m) n =
     (case map_of n k of None \<Rightarrow> False | Some w \<Rightarrow> py_eq v w \<and> py_eq_items m n)"

text \<open>
  Python's \<^verbatim>\<open><\<close>: defined between numbers, between strings and between lists (at the first
  pair of unequal elements, else by length); every other pair raises \<open>TypeError\<close>.
\<close>

fun py_lt :: "json \<Rightarrow> json \<Rightarrow> exn + bool"
  and py_lt_list :: "json list \<Rightarrow> json list \<Rightarrow> exn + bool" where
  "py_lt (JBool b) y =
     (case num_of y of None \<Rightarrow> Inl TypeError | Some j \<Rightarrow> Inr ((if b then 1 else 0) < j))"
| "py_lt (JInt i) y = (case num_of y of None \<Rightarrow> Inl TypeError | Some j \<Rightarrow> Inr (i < j))"
| "py_lt (JStr s) y = (case y of JStr t \<Rightarrow> Inr (s < t) | _ \<Rightarrow> Inl TypeError)"
| "py_lt (JList xs) y = (case y of JList ys \<Rightarrow> py_lt_list xs ys | _ \<Rightarrow> Inl TypeError)"
| "py_lt JNull y = Inl TypeError"
| "py_lt (JObj m) y = Inl TypeError"
| "py_lt_list [] ys = Inr (ys \<noteq> [])"
| "py_lt_list (x # xs) ys =
     (case ys of [] \<Rightarrow> Inr False
      | y # ys' \<Rightarrow> if py_eq x y then py_lt_list xs ys' else py_lt x y)"

text \<open>Lists and dictionaries are unhashable: using one as a dictionary key raises.\<close>

fun hashable :: "json \<Rightarrow> bool" where
  "hashable (JList xs) = False"
| "hashable (JObj d) = False"
| "hashable _ = True"

section \<open>\<^verbatim>\<open>sorted(xs, key=...)\<close>\<close>

text \<open>
  \<^verbatim>\<open>sorted\<close> is stable and compares keys with \<^verbatim>\<open><\<close> only; an exception raised by a
  comparison aborts the sort. The model inserts each element, from the last to the first,
  in front of the first element that is not smaller than it. A list of fewer than two
  elements is returned without any comparison.
\<close>

fun insort_py :: "('a \<Rightarrow> json) \<Rightarrow> 'a \<Rightarrow> 'a list \<Rightarrow> exn + 'a list" where
  "insort_py key x [] = Inr [x]"
| "insort_py key x (y # ys) =
     (case py_lt (key y) (key x) of
        Inl e \<Rightarrow> Inl e
      | Inr True \<Rightarrow> (case insort_py key x ys of Inl e \<Rightarrow> Inl e | Inr zs \<Rightarrow> Inr (y # zs))
      | Inr False \<Rightarrow> Inr (x # y # ys))"

fun sorted_py :: "('a \<Rightarrow> json) \<Rightarrow> 'a list \<Rightarrow> exn + 'a list" where
  "sorted_py key [] = Inr []"
| "sorted_py key (x # xs) =
     (case sorted_py key xs of Inl e \<Rightarrow> Inl e | Inr ys \<Rightarrow> insort_py key x ys)"

section \<open>\<^verbatim>\<open>categorize_tickets\<close>\<close>

text \<open>
  \<^verbatim>\<open>tickets_summary\<close>: a dictionary from the five status keys to lists of tickets.
\<close>

type_synonym summary = "(string \<times> addr list) list"

definition tickets_summary_init :: summary where
  "tickets_summary_init =
     [(''open'', []), (''blocked'', []), (''in_progress'', []), (''in_review'', []),
      (''done'', [])]"

text \<open>
  \<^verbatim>\<open>status in tickets_summary\<close>: hashing an unhashable value raises \<open>TypeError\<close>; the keys
  are strings, so only a string can be equal to one of them.
\<close>

definition summary_contains :: "summary \<Rightarrow> json \<Rightarrow> exn + bool" where
  "summary_contains sm st =
     (if \<not> hashable st then Inl TypeError
      else Inr (case st of JStr s \<Rightarrow> map_of sm s \<noteq> None | _ \<Rightarrow> False))"

text \<open>\<^verbatim>\<open>tickets_summary[status].append(ticket)\<close> for a status that is a key.\<close>

definition summary_append :: "summary \<Rightarrow> string \<Rightarrow> addr \<Rightarrow> summary" where
  "summary_append sm s a = dict_setitem sm s (dict_get sm s [] @ [a])"

text \<open>The sort key \<^verbatim>\<open>lambda x: x.get("start_date", "")\<close>.\<close>

definition start_key :: "heap \<Rightarrow> addr \<Rightarrow> json" where
  "start_key h a = dict_get (h a) ''start_date'' (JStr '''')"

text \<open>
  The first loop (lines 137 to 143). The store is threaded through every iteration; the
  loop reads \<^verbatim>\<open>ticket["type"]\<close> and, only for a ticket that is not a risk,
  \<^verbatim>\<open>ticket["status"]\<close>.
\<close>

fun classify_loop ::
  "addr list \<Rightarrow> heap \<Rightarrow> summary \<Rightarrow> addr list \<Rightarrow> heap \<times> (exn + summary \<times> addr list)" where
  "classify_loop [] h sm risks = (h, Inr (sm, risks))"
| "classify_loop (ticket # tickets) h sm risks =
     (case dict_getitem (h ticket) ''type'' of
        Inl e \<Rightarrow> (h, Inl e)
      | Inr ty \<Rightarrow>
          if py_eq ty (JStr ''Risk'') then classify_loop tickets h sm (risks @ [ticket])
          else
            (case dict_getitem (h ticket) ''status'' of
               Inl e \<Rightarrow> (h, Inl e)
             | Inr status \<Rightarrow>
                 (case summary_contains sm status of
                    Inl e \<Rightarrow> (h, Inl e)
                  | Inr False \<Rightarrow> classify_loop tickets h sm risks
                  | Inr True \<Rightarrow>
                      (case status of
                         JStr s \<Rightarrow> classify_loop tickets h (summary_append sm s ticket) risks
                       | _ \<Rightarrow> classify_loop tickets h sm risks))))"

text \<open>
  The second loop (lines 146 and 147) walks the items of the summary in key order and
  replaces each bucket by its sorted copy.
\<close>

fun sort_loop ::
  "(string \<times> addr list) list \<Rightarrow> heap \<Rightarrow> summary \<Rightarrow> heap \<times> (exn + summary)" where
  "sort_loop [] h sm = (h, Inr sm)"
| "sort_loop ((status, tickets_list) # items) h sm =
     (case sorted_py (start_key h) tickets_list of
        Inl e \<Rightarrow> (h, Inl e)
      | Inr sorted_list \<Rightarrow> sort_loop items h (dict_setitem sm status sorted_list))"

definition categorize_tickets ::
  "heap \<Rightarrow> addr list \<Rightarrow> heap \<times> (exn + summary \<times> addr list)" where
  "categorize_tickets h tickets =
     (case classify_loop tickets h tickets_summary_init [] of
        (h1, Inl e) \<Rightarrow> (h1, Inl e)
      | (h1, Inr (sm, risks)) \<Rightarrow>
          (case sort_loop sm h1 sm of
             (h2, Inl e) \<Rightarrow> (h2, Inl e)
           | (h2, Inr sm') \<Rightarrow> (h2, Inr (sm', risks))))"

section \<open>Timestamps\<close>

text \<open>
  A Python string is a sequence of code points; the model holds its UTF-8 bytes. Decoding
  gives the code points back. A byte that is not part of a well-formed sequence (no Python
  string encodes to it) stands for the lone surrogate that the \<open>surrogateescape\<close> handler
  gives it, which is no digit and no separator.
\<close>

definition continuation :: "int \<Rightarrow> bool" where
  "continuation b = (128 \<le> b \<and> b \<le> 191)"

definition utf8_head :: "int \<Rightarrow> int list \<Rightarrow> int \<times> nat" where
  "utf8_head b bs =
     (if b < 128 then (b, 0)
      else
        (case bs of
           b1 # bs1 \<Rightarrow>
             if 194 \<le> b \<and> b \<le> 223 \<and> continuation b1 then ((b - 192) * 64 + (b1 - 128), 1)
             else
               (case bs1 of
                  b2 # bs2 \<Rightarrow>
                    let c3 = (b - 224) * 4096 + (b1 - 128) * 64 + (b2 - 128) in
                    if 224 \<le> b \<and> b \<le> 239 \<and> continuation b1 \<and> continuation b2 \<and> 2048 \<le> c3
                    then (c3, 2)
                    else
                      (case bs2 of
                         b3 # bs3 \<Rightarrow>
                           let c4 = (b - 240) * 262144 + (b1 - 128) * 4096 + (b2 - 128) * 64
                                    + (b3 - 128) in
                           if 240 \<le> b \<and> b \<le> 244 \<and> continuation b1 \<and> continuation b2
                              \<and> continuation b3 \<and> 65536 \<le> c4 \<and> c4 \<le> 1114111
                           then (c4, 3) else (56320 + b, 0)
                       | [] \<Rightarrow> (56320 + b, 0))
                | [] \<Rightarrow> (56320 + b, 0))
         | [] \<Rightarrow> (56320 + b, 0)))"

function utf8_decode :: "int list \<Rightarrow> int list" where
  "utf8_decode [] = []"
| "utf8_decode (b # bs) = (case utf8_head b bs of (c, n) \<Rightarrow> c # utf8_decode (drop n bs))"
  by pat_completeness auto
termination
  by (relation "measure length") auto

definition code_points :: "string \<Rightarrow> int list" where
  "code_points s = utf8_decode (map of_char s)"

text \<open>
  The decimal digits of Unicode 14.0, the character database of CPython 3.11: they come in
  runs of ten consecutive code points, from the digit zero to the digit nine, and the
  list holds the zero of every run. The pattern \<^verbatim>\<open>\d\<close> matches any of them, and \<^verbatim>\<open>int\<close>
  reads each as its decimal value.
\<close>

definition decimal_zeros :: "int list" where
  "decimal_zeros =
     [48, 1632, 1776, 1984, 2406, 2534, 2662, 2790, 2918, 3046, 3174, 3302, 3430, 3558,
      3664, 3792, 3872, 4160, 4240, 6112, 6160, 6470, 6608, 6784, 6800, 6992, 7088, 7232,
      7248, 42528, 43216, 43264, 43472, 43504, 43600, 44016, 65296, 66720, 68912, 69734,
      69872, 69942, 70096, 70384, 70736, 70864, 71248, 71360, 71472, 71904, 72016, 72784,
      73040, 73120, 92768, 92864, 93008, 120782, 120792, 120802, 120812, 120822, 123200,
      123632, 125264, 130032]"

definition decimal_value :: "int \<Rightarrow> int option" where
  "decimal_value c =
     (case find (\<lambda>z. z \<le> c \<and> c \<le> z + 9) decimal_zeros of
        None \<Rightarrow> None
      | Some z \<Rightarrow> Some (c - z))"

text \<open>A character class of ASCII digits, for instance \<^verbatim>\<open>[1-9]\<close> or \<^verbatim>\<open>[0-5]\<close>.\<close>

definition ascii_digit :: "int \<Rightarrow> int \<Rightarrow> int \<Rightarrow> int option" where
  "ascii_digit lo hi c = (if 48 + lo \<le> c \<and> c \<le> 48 + hi then Some (c - 48) else None)"

text \<open>Two characters, each of its own class, read as a number of two digits.\<close>

definition two_digits ::
  "(int \<Rightarrow> int option) \<Rightarrow> (int \<Rightarrow> int option) \<Rightarrow> int \<Rightarrow> int \<Rightarrow> int option" where
  "two_digits first_class second_class c d =
     (case first_class c of
        None \<Rightarrow> None
      | Some x \<Rightarrow> (case second_class d of None \<Rightarrow> None | Some y \<Rightarrow> Some (10 * x + y)))"

text \<open>The first alternative of a pattern that matches.\<close>

fun alternatives :: "'a option list \<Rightarrow> 'a option" where
  "alternatives [] = None"
| "alternatives (None # rest) = alternatives rest"
| "alternatives (Some x # rest) = Some x"

text \<open>
  \<^verbatim>\<open>datetime.strptime(s, "%Y-%m-%dT%H:%M:%S.%f")\<close>. The format is a sequence of numeric
  fields separated by literal characters that no field can contain, so each field is the
  text up to its separator, and the fraction is the rest of the string. The literal
  \<open>T\<close> is matched without regard to case. Each field must be one of the alternatives of
  the pattern of its directive:
  \<^verbatim>\<open>%Y\<close> is \<^verbatim>\<open>\d\d\d\d\<close>,
  \<^verbatim>\<open>%m\<close> is \<^verbatim>\<open>1[0-2]|0[1-9]|[1-9]\<close>,
  \<^verbatim>\<open>%d\<close> is \<^verbatim>\<open>3[0-1]|[1-2]\d|0[1-9]|[1-9]| [1-9]\<close>,
  \<^verbatim>\<open>%H\<close> is \<^verbatim>\<open>2[0-3]|[0-1]\d|\d\<close>,
  \<^verbatim>\<open>%M\<close> is \<^verbatim>\<open>[0-5]\d|\d\<close>,
  \<^verbatim>\<open>%S\<close> is \<^verbatim>\<open>6[0-1]|[0-5]\d|\d\<close> and
  \<^verbatim>\<open>%f\<close> is \<^verbatim>\<open>[0-9]{1,6}\<close>.
  The date must exist and the second must be below 60; otherwise, and when the text has
  another shape, \<open>ValueError\<close> is raised. A value that is not a string raises \<open>TypeError\<close>.
\<close>

record datetime =
  year :: int
  month :: int
  day :: int
  hour :: int
  minute :: int
  second :: int
  microsecond :: int

definition year_field :: "int list \<Rightarrow> int option" where
  "year_field cs =
     (case map decimal_value cs of
        [Some a, Some b, Some c, Some d] \<Rightarrow> Some (1000 * a + 100 * b + 10 * c + d)
      | _ \<Rightarrow> None)"

definition month_field :: "int list \<Rightarrow> int option" where
  "month_field cs =
     (case cs of
        [c, d] \<Rightarrow>
          alternatives
            [two_digits (ascii_digit 1 1) (ascii_digit 0 2) c d,
             two_digits (ascii_digit 0 0) (ascii_digit 1 9) c d]
      | [c] \<Rightarrow> ascii_digit 1 9 c
      | _ \<Rightarrow> None)"

definition day_field :: "int list \<Rightarrow> int option" where
  "day_field cs =
     (case cs of
        [c, d] \<Rightarrow>
          alternatives
            [two_digits (ascii_digit 3 3) (ascii_digit 0 1) c d,
             two_digits (ascii_digit 1 2) decimal_value c d,
             two_digits (ascii_digit 0 0) (ascii_digit 1 9) c d,
             if c = 32 then ascii_digit 1 9 d else None]
      | [c] \<Rightarrow> ascii_digit 1 9 c
      | _ \<Rightarrow> None)"

definition hour_field :: "int list \<Rightarrow> int option" where
  "hour_field cs =
     (case cs of
        [c, d] \<Rightarrow>
          alternatives
            [two_digits (ascii_digit 2 2) (ascii_digit 0 3) c d,
             two_digits (ascii_digit 0 1) decimal_value c d]
      | [c] \<Rightarrow> decimal_value c
      | _ \<Rightarrow> None)"

definition minute_field :: "int list \<Rightarrow> int option" where
  "minute_field cs =
     (case cs of
        [c, d] \<Rightarrow> two_digits (ascii_digit 0 5) decimal_value c d
      | [c] \<Rightarrow> decimal_value c
      | _ \<Rightarrow> None)"

definition second_field :: "int list \<Rightarrow> int option" where
  "second_field cs =
     (case cs of
        [c, d] \<Rightarrow>
          alternatives
            [two_digits (ascii_digit 6 6) (ascii_digit 0 1) c d,
             two_digits (ascii_digit 0 5) decimal_value c d]
      | [c] \<Rightarrow> decimal_value c
      | _ \<Rightarrow> None)"

text \<open>The fraction is padded with zeros on the right to six digits.\<close>

definition fraction_field :: "int list \<Rightarrow> int option" where
  "fraction_field cs =
     (if 1 \<le> length cs \<and> length cs \<le> 6 \<and> list_all (\<lambda>c. 48 \<le> c \<and> c \<le> 57) cs
      then Some (foldl (\<lambda>n c. 10 * n + (c - 48)) 0 (cs @ replicate (6 - length cs) 48))
      else None)"

text \<open>The text before the first separator, and the text after it (if there is one).\<close>

definition split_field :: "int list \<Rightarrow> int list \<Rightarrow> (int list \<times> int list) option" where
  "split_field sep cs =
     (case dropWhile (\<lambda>c. c \<notin> set sep) cs of
        [] \<Rightarrow> None
      | _ # rest \<Rightarrow> Some (takeWhile (\<lambda>c. c \<notin> set sep) cs, rest))"

fun split_fields :: "int list list \<Rightarrow> int list \<Rightarrow> int list list option" where
  "split_fields [] cs = Some [cs]"
| "split_fields (sep # seps) cs =
     (case split_field sep cs of
        None \<Rightarrow> None
      | Some (field, rest) \<Rightarrow> map_option ((#) field) (split_fields seps rest))"

text \<open>
  The separators of the format: \<open>-\<close>, \<open>-\<close>, \<open>T\<close> or \<open>t\<close>, \<open>:\<close>, \<open>:\<close> and \<open>.\<close>.
\<close>

definition separators :: "int list list" where
  "separators = [[45], [45], [84, 116], [58], [58], [46]]"

definition is_leap :: "int \<Rightarrow> bool" where
  "is_leap y = (y mod 4 = 0 \<and> (y mod 100 \<noteq> 0 \<or> y mod 400 = 0))"

definition days_in_month :: "int \<Rightarrow> int \<Rightarrow> int" where
  "days_in_month y m =
     (if m = 2 then (if is_leap y then 29 else 28)
      else if m = 4 \<or> m = 6 \<or> m = 9 \<or> m = 11 then 30 else 31)"

definition parse_fields :: "string \<Rightarrow> datetime option" where
  "parse_fields s =
     (case split_fields separators (code_points s) of
        Some [ys, ms, ds, hs, mins, ss, fs] \<Rightarrow>
          Option.bind (year_field ys) (\<lambda>y.
          Option.bind (month_field ms) (\<lambda>m.
          Option.bind (day_field ds) (\<lambda>d.
          Option.bind (hour_field hs) (\<lambda>hh.
          Option.bind (minute_field mins) (\<lambda>mi.
          Option.bind (second_field ss) (\<lambda>sec.
          Option.bind (fraction_field fs) (\<lambda>us.
            Some \<lparr>year = y, month = m, day = d, hour = hh, minute = mi, second = sec,
                  microsecond = us\<rparr>)))))))
      | _ \<Rightarrow> None)"

definition strptime :: "json \<Rightarrow> exn + datetime" where
  "strptime v =
     (case v of
        JStr s \<Rightarrow>
          (case parse_fields s of
             None \<Rightarrow> Inl ValueError
           | Some dt \<Rightarrow>
               if 1 \<le> year dt \<and> day dt \<le> days_in_month (year dt) (month dt) \<and> second dt \<le> 59
               then Inr dt else Inl ValueError)
      | _ \<Rightarrow> Inl TypeError)"

text \<open>
  \<^verbatim>\<open>dt.strftime("%Y-%m-%d %H:%M:%S")\<close> as the C library of Linux writes it: the year in
  decimal without padding (\<open>999\<close>, not \<open>0999\<close>), the other fields with two digits. The
  year of a datetime lies between 1 and 9999.
\<close>

definition digit_char :: "int \<Rightarrow> char" where
  "digit_char n = ''0123456789'' ! nat (n mod 10)"

definition pad2 :: "int \<Rightarrow> string" where
  "pad2 n = [digit_char (n div 10), digit_char n]"

definition year_text :: "int \<Rightarrow> string" where
  "year_text y =
     (if y < 10 then [digit_char y]
      else if y < 100 then [digit_char (y div 10), digit_char y]
      else if y < 1000 then [digit_char (y div 100), digit_char (y div 10), digit_char y]
      else [digit_char (y div 1000), digit_char (y div 100), digit_char (y div 10),
            digit_char y])"

definition strftime :: "datetime \<Rightarrow> string" where
  "strftime dt =
     year_text (year dt) @ ''-'' @ pad2 (month dt) @ ''-'' @ pad2 (day dt) @ '' ''
       @ pad2 (hour dt) @ '':'' @ pad2 (minute dt) @ '':'' @ pad2 (second dt)"

section \<open>\<^verbatim>\<open>get_recent_done_tickets\<close>\<close>

text \<open>
  Audit-log entries are only read, so they are dictionaries by value. The condition of
  line 155, evaluated left to right with Python's short-circuit \<^verbatim>\<open>and\<close>.
\<close>

definition log_qualifies :: "dict \<Rightarrow> exn + bool" where
  "log_qualifies log =
     (case dict_getitem log ''action'' of
        Inl e \<Rightarrow> Inl e
      | Inr action \<Rightarrow>
          if \<not> py_eq action (JStr ''update'') then Inr False
          else
            (case dict_getitem log ''changes'' of
               Inl e \<Rightarrow> Inl e
             | Inr changes \<Rightarrow>
                 if \<not> truthy changes then Inr False
                 else
                   (case attr_get changes ''status'' (JObj []) of
                      Inl e \<Rightarrow> Inl e
                    | Inr delta \<Rightarrow>
                        (case attr_get delta ''new_value'' JNull of
                           Inl e \<Rightarrow> Inl e
                         | Inr new_value \<Rightarrow> Inr (py_eq new_value (JStr ''DONE''))))))"

text \<open>
  \<^verbatim>\<open>next((t for t in tickets if t["id"] == ticket_id), None)\<close>: the first ticket whose id
  equals the given one; a ticket without an id that is reached before a match raises.
\<close>

fun find_ticket :: "heap \<Rightarrow> addr list \<Rightarrow> json \<Rightarrow> exn + addr option" where
  "find_ticket h [] ticket_id = Inr None"
| "find_ticket h (t # tickets) ticket_id =
     (case dict_getitem (h t) ''id'' of
        Inl e \<Rightarrow> Inl e
      | Inr i \<Rightarrow> if py_eq i ticket_id then Inr (Some t) else find_ticket h tickets ticket_id)"

text \<open>
  One iteration of the loop up to the assignment of line 162: either an exception, or
  nothing to do, or the ticket to annotate together with its completion date.
\<close>

definition reconcile_entry :: "heap \<Rightarrow> addr list \<Rightarrow> dict \<Rightarrow> exn + (addr \<times> string) option" where
  "reconcile_entry h tickets log =
     (case log_qualifies log of
        Inl e \<Rightarrow> Inl e
      | Inr False \<Rightarrow> Inr None
      | Inr True \<Rightarrow>
          (case dict_getitem log ''auditable_id'' of
             Inl e \<Rightarrow> Inl e
           | Inr ticket_id \<Rightarrow>
               (case find_ticket h tickets ticket_id of
                  Inl e \<Rightarrow> Inl e
                | Inr None \<Rightarrow> Inr None
                | Inr (Some ticket) \<Rightarrow>
                    if h ticket = [] then Inr None
                    else
                      (case dict_getitem log ''created_at'' of
                         Inl e \<Rightarrow> Inl e
                       | Inr created_at \<Rightarrow>
                           (case strptime created_at of
                              Inl e \<Rightarrow> Inl e
                            | Inr dt \<Rightarrow> Inr (Some (ticket, strftime dt)))))))"

text \<open>\<^verbatim>\<open>ticket["completion_date"] = completion_date\<close>: a write to the object in the store.\<close>

definition set_completion_date :: "heap \<Rightarrow> addr \<Rightarrow> string \<Rightarrow> heap" where
  "set_completion_date h a cd = h(a := dict_setitem (h a) ''completion_date'' (JStr cd))"

text \<open>
  The loop of lines 154 to 163. An exception leaves the store as the iterations before it
  have made it.
\<close>

fun recent_loop ::
  "dict list \<Rightarrow> addr list \<Rightarrow> heap \<Rightarrow> addr list \<Rightarrow> heap \<times> (exn + addr list)" where
  "recent_loop [] tickets h recent = (h, Inr recent)"
| "recent_loop (log # logs) tickets h recent =
     (case reconcile_entry h tickets log of
        Inl e \<Rightarrow> (h, Inl e)
      | Inr None \<Rightarrow> recent_loop logs tickets h recent
      | Inr (Some (ticket, cd)) \<Rightarrow>
          recent_loop logs tickets (set_completion_date h ticket cd) (recent @ [ticket]))"

definition get_recent_done_tickets ::
  "heap \<Rightarrow> dict list \<Rightarrow> addr list \<Rightarrow> heap \<times> (exn + addr list)" where
  "get_recent_done_tickets h audit_logs tickets = recent_loop audit_logs tickets h []"

section \<open>Vocabulary for the properties of the reconciler\<close>

text \<open>
  The specification's conditions on an audit-log entry, spelled out on the entry's fields.
  An entry carries a status delta when \<open>changes\<close> is a mapping whose \<open>status\<close> is a
  mapping; the delta's new value is then the \<open>new_value\<close> of that mapping.
\<close>

definition status_new_value :: "dict \<Rightarrow> json option" where
  "status_new_value log =
     (case map_of log ''changes'' of
        Some (JObj changes) \<Rightarrow>
          (case map_of changes ''status'' of
             Some (JObj delta) \<Rightarrow> map_of delta ''new_value''
           | _ \<Rightarrow> None)
      | _ \<Rightarrow> None)"

text \<open>The action is \<open>update\<close> and the status delta's new value is the done marker.\<close>

definition is_done_update :: "dict \<Rightarrow> bool" where
  "is_done_update log \<longleftrightarrow>
     map_of log ''action'' = Some (JStr ''update'') \<and> status_new_value log = Some (JStr ''DONE'')"

text \<open>The ticket at an address has an id equal (\<^verbatim>\<open>==\<close>) to the given one.\<close>

definition id_matches :: "heap \<Rightarrow> json \<Rightarrow> addr \<Rightarrow> bool" where
  "id_matches h ticket_id a =
     (case map_of (h a) ''id'' of None \<Rightarrow> False | Some i \<Rightarrow> py_eq i ticket_id)"

text \<open>The entry's \<open>auditable_id\<close> equals the id of the ticket at an address.\<close>

definition references :: "heap \<Rightarrow> dict \<Rightarrow> addr \<Rightarrow> bool" where
  "references h log a =
     (case map_of log ''auditable_id'' of
        None \<Rightarrow> False
      | Some ticket_id \<Rightarrow> id_matches h ticket_id a)"

text \<open>The first ticket of the list that the entry references.\<close>

definition matching_ticket :: "heap \<Rightarrow> addr list \<Rightarrow> dict \<Rightarrow> addr option" where
  "matching_ticket h tickets log = find (references h log) tickets"

text \<open>
  The specification's condition for an entry to reconcile: a done update whose
  \<open>auditable_id\<close> equals the id of some ticket of the ticket list.
\<close>

definition entry_reconciles :: "heap \<Rightarrow> addr list \<Rightarrow> dict \<Rightarrow> bool" where
  "entry_reconciles h tickets log \<longleftrightarrow>
     is_done_update log \<and> (\<exists>a \<in> set tickets. references h log a)"

text \<open>The completion date an entry yields: its \<open>created_at\<close>, parsed and formatted.\<close>

definition formatted_created_at :: "dict \<Rightarrow> string option" where
  "formatted_created_at log =
     (case map_of log ''created_at'' of
        None \<Rightarrow> None
      | Some v \<Rightarrow> (case strptime v of Inl e \<Rightarrow> None | Inr dt \<Rightarrow> Some (strftime dt)))"

text \<open>
  The writes a run performs, computed on the store of the start: for each entry in order
  the ticket to annotate and its completion date, up to the first exception (if any).
\<close>

fun planned_writes :: "heap \<Rightarrow> addr list \<Rightarrow> dict list \<Rightarrow> (addr \<times> string) list \<times> exn option" where
  "planned_writes h tickets [] = ([], None)"
| "planned_writes h tickets (log # logs) =
     (case reconcile_entry h tickets log of
        Inl e \<Rightarrow> ([], Some e)
      | Inr None \<Rightarrow> planned_writes h tickets logs
      | Inr (Some w) \<Rightarrow> (case planned_writes h tickets logs of (ws, r) \<Rightarrow> (w # ws, r)))"

text \<open>Performing a list of writes on a store, in order.\<close>

definition apply_writes :: "(addr \<times> string) list \<Rightarrow> heap \<Rightarrow> heap" where
  "apply_writes ws h = fold (\<lambda>(a, cd) h. set_completion_date h a cd) ws h"

text \<open>Two stores whose tickets have the same ids.\<close>

definition same_ids :: "heap \<Rightarrow> heap \<Rightarrow> bool" where
  "same_ids h h' \<longleftrightarrow> (\<forall>a. map_of (h' a) ''id'' = map_of (h a) ''id'')"

text \<open>
  An audit-log entry of the data model: it has an action and an \<open>auditable_id\<close>, and its
  \<open>changes\<close> are null or a mapping whose \<open>status\<close>, if present, is a mapping.
\<close>

definition well_formed_log :: "dict \<Rightarrow> bool" where
  "well_formed_log log \<longleftrightarrow>
     map_of log ''action'' \<noteq> None \<and> map_of log ''auditable_id'' \<noteq> None \<and>
     (case map_of log ''changes'' of
        Some JNull \<Rightarrow> True
      | Some (JObj changes) \<Rightarrow>
          (case map_of changes ''status'' of
             None \<Rightarrow> True
           | Some (JObj delta) \<Rightarrow> True
           | Some _ \<Rightarrow> False)
      | _ \<Rightarrow> False)"

text \<open>The write of an entry that reconciles.\<close>

definition expected_write :: "heap \<Rightarrow> addr list \<Rightarrow> dict \<Rightarrow> addr \<times> string" where
  "expected_write h ts log = (the (matching_ticket h ts log), the (formatted_created_at log))"

text \<open>The entry reconciles, and the ticket it matches is the one at the given address.\<close>

definition reconciles_to :: "heap \<Rightarrow> addr list \<Rightarrow> addr \<Rightarrow> dict \<Rightarrow> bool" where
  "reconciles_to h tickets a log \<longleftrightarrow>
     entry_reconciles h tickets log \<and> matching_ticket h tickets log = Some a"

text \<open>The entries of the audit log that reconcile to the ticket at an address, in order.\<close>

definition entries_for :: "heap \<Rightarrow> addr list \<Rightarrow> addr \<Rightarrow> dict list \<Rightarrow> dict list" where
  "entries_for h tickets a logs = filter (reconciles_to h tickets a) logs"

section \<open>Vocabulary for the properties of the classifier\<close>

text \<open>The five status keys of the summary, in the order of the dictionary.\<close>

definition status_keys :: "string list" where
  "status_keys = [''open'', ''blocked'', ''in_progress'', ''in_review'', ''done'']"

text \<open>The type of the ticket at an address equals \<open>"Risk"\<close>.\<close>

definition is_risk :: "heap \<Rightarrow> addr \<Rightarrow> bool" where
  "is_risk h a \<longleftrightarrow> map_of (h a) ''type'' = Some (JStr ''Risk'')"

text \<open>The ticket is not a risk and its status is the given string.\<close>

definition in_bucket :: "heap \<Rightarrow> string \<Rightarrow> addr \<Rightarrow> bool" where
  "in_bucket h b a \<longleftrightarrow> \<not> is_risk h a \<and> map_of (h a) ''status'' = Some (JStr b)"

text \<open>The status of the ticket is one of the five keys.\<close>

definition recognized :: "heap \<Rightarrow> addr \<Rightarrow> bool" where
  "recognized h a \<longleftrightarrow> (\<exists>b \<in> set status_keys. map_of (h a) ''status'' = Some (JStr b))"

text \<open>The list the summary holds under a key.\<close>

definition bucket :: "summary \<Rightarrow> string \<Rightarrow> addr list" where
  "bucket sm b = dict_get sm b []"

text \<open>The start date as a string: the empty string when the field is absent.\<close>

definition start_string :: "heap \<Rightarrow> addr \<Rightarrow> string" where
  "start_string h a = (case start_key h a of JStr s \<Rightarrow> s | _ \<Rightarrow> [])"

text \<open>
  The first loop can classify the ticket without an exception: the ticket has a type,
  and, unless it is a risk, a status that can be hashed.
\<close>

definition classifiable :: "heap \<Rightarrow> addr \<Rightarrow> bool" where
  "classifiable h a \<longleftrightarrow>
     (case map_of (h a) ''type'' of
        None \<Rightarrow> False
      | Some ty \<Rightarrow>
          ty = JStr ''Risk'' \<or>
          (case map_of (h a) ''status'' of None \<Rightarrow> False | Some st \<Rightarrow> hashable st))"

text \<open>
  The required field the first loop finds missing on a ticket, if any: the type, or the
  status of a ticket that is not a risk.
\<close>

definition missing_field :: "heap \<Rightarrow> addr \<Rightarrow> string option" where
  "missing_field h a =
     (case map_of (h a) ''type'' of
        None \<Rightarrow> Some ''type''
      | Some ty \<Rightarrow>
          if ty = JStr ''Risk'' then None
          else (case map_of (h a) ''status'' of None \<Rightarrow> Some ''status'' | Some st \<Rightarrow> None))"

text \<open>
  The second store differs from the first at most in the \<open>status\<close> field of tickets that are
  risks.
\<close>

definition differs_in_risk_status :: "heap \<Rightarrow> heap \<Rightarrow> bool" where
  "differs_in_risk_status h h' \<longleftrightarrow>
     (\<forall>a. h' a = h a \<or>
          (is_risk h a \<and> (\<forall>k. k \<noteq> ''status'' \<longrightarrow> map_of (h' a) k = map_of (h a) k)))"


section \<open>Sample data\<close>

text \<open>The two tickets of the repository's tests, at addresses 0 and 1 of a store.\<close>

definition ticket_58 :: dict where
  "ticket_58 =
     [(''id'', JInt 58), (''status'', JStr ''in_progress''), (''type'', JStr ''Activity''),
      (''start_date'', JStr ''2024-11-28'')]"

definition ticket_59 :: dict where
  "ticket_59 =
     [(''id'', JInt 59), (''status'', JStr ''done''), (''type'', JStr ''Activity''),
      (''start_date'', JStr ''2024-11-28'')]"

definition sample_heap :: heap where
  "sample_heap = (\<lambda>a. [])(0 := ticket_58, 1 := ticket_59)"

text \<open>An audit-log entry that marks the ticket with the given id done at the given time.\<close>

definition done_log :: "int \<Rightarrow> string \<Rightarrow> dict" where
  "done_log i created =
     [(''auditable_id'', JInt i), (''action'', JStr ''update''),
      (''changes'', JObj [(''status'', JObj [(''new_value'', JStr ''DONE'')])]),
      (''created_at'', JStr created)]"

text \<open>An update of ticket 58 that moves it to another status than done.\<close>

definition review_log :: dict where
  "review_log =
     [(''auditable_id'', JInt 58), (''action'', JStr ''update''),
      (''changes'', JObj [(''status'', JObj [(''new_value'', JStr ''IN_REVIEW'')])]),
      (''created_at'', JStr ''2024-11-19T09:30:00.5'')]"

text \<open>
  A board of eleven tickets: the two tickets of the tests, two risks (one of them without a
  status), open tickets with and without a start date, a ticket whose status is not one of
  the five keys, a ticket without a status and a ticket without a type.
\<close>

definition board_tickets :: "dict list" where
  "board_tickets =
     [ticket_58, ticket_59,
      [(''id'', JInt 60), (''type'', JStr ''Risk''), (''status'', JStr ''open'')],
      [(''id'', JInt 61), (''type'', JStr ''Risk'')],
      [(''id'', JInt 62), (''type'', JStr ''Bug''), (''status'', JStr ''open''),
       (''start_date'', JStr ''2024-12-01'')],
      [(''id'', JInt 63), (''type'', JStr ''Bug''), (''status'', JStr ''open'')],
      [(''id'', JInt 64), (''type'', JStr ''Activity''), (''status'', JStr ''open''),
       (''start_date'', JStr ''2024-11-01'')],
      [(''id'', JInt 65), (''type'', JStr ''Activity''), (''status'', JStr ''archived'')],
      [(''id'', JInt 66), (''type'', JStr ''Activity''), (''status'', JStr ''open''),
       (''start_date'', JStr ''2024-12-01'')],
      [(''id'', JInt 70), (''type'', JStr ''Bug'')],
      [(''id'', JInt 71), (''status'', JStr ''open'')]]"

text \<open>The store that holds the tickets of the board at the addresses 0 to 10.\<close>

definition board_heap :: heap where
  "board_heap a = (if a < length board_tickets then board_tickets ! a else [])"

text \<open>The summary of the first nine tickets of the board.\<close>

definition board_summary :: summary where
  "board_summary =
     [(''open'', [5, 6, 4, 8]), (''blocked'', []), (''in_progress'', [0]), (''in_review'', []),
      (''done'', [1])]"

section \<open>The reconciler: what a run writes and returns\<close>

lemma map_of_dict_setitem:
  "map_of (dict_setitem d k v) k' = (if k' = k then Some v else map_of d k')"
  by (induction d) auto

lemma dict_setitem_twice: "dict_setitem (dict_setitem d k v) k w = dict_setitem d k w"
  by (induction d) auto

lemma py_eq_JStr: "py_eq x (JStr s) \<longleftrightarrow> x = JStr s"
  by (cases x) auto

lemma same_ids_refl: "same_ids h h"
  by (simp add: same_ids_def)

lemma same_ids_write: "same_ids h h' \<Longrightarrow> same_ids h (set_completion_date h' a cd)"
  by (simp add: same_ids_def set_completion_date_def map_of_dict_setitem)

lemma find_ticket_same_ids: "same_ids h h' \<Longrightarrow> find_ticket h' ts tid = find_ticket h ts tid"
  by (induction ts) (auto simp: same_ids_def dict_getitem_def split: option.splits)

lemma find_ticket_has_id: "find_ticket h ts tid = Inr (Some a) \<Longrightarrow> map_of (h a) ''id'' \<noteq> None"
  by (induction ts) (auto simp: dict_getitem_def split: option.splits if_splits)

lemma find_ticket_find: "find_ticket h ts tid = Inr r \<Longrightarrow> find (id_matches h tid) ts = r"
  by (induction ts) (auto simp: dict_getitem_def id_matches_def split: option.splits if_splits)

lemma find_ticket_total:
  "\<forall>a \<in> set ts. map_of (h a) ''id'' \<noteq> None \<Longrightarrow> find_ticket h ts tid = Inr (find (id_matches h tid) ts)"
  by (induction ts) (auto simp: dict_getitem_def id_matches_def split: option.splits)

lemma reconcile_entry_same_ids:
  assumes "same_ids h h'"
  shows "reconcile_entry h' ts log = reconcile_entry h ts log"
proof -
  have nonempty: "h' a \<noteq> [] \<and> h a \<noteq> []" if "find_ticket h ts tid = Inr (Some a)" for tid a
  proof -
    from that have "map_of (h a) ''id'' \<noteq> None" by (rule find_ticket_has_id)
    moreover from this assms have "map_of (h' a) ''id'' \<noteq> None" by (simp add: same_ids_def)
    ultimately show ?thesis by auto
  qed
  show ?thesis
    unfolding reconcile_entry_def find_ticket_same_ids [OF assms]
    by (auto split: sum.splits option.splits bool.splits dest: nonempty)
qed

lemma apply_writes_Cons:
  "apply_writes ((a, cd) # ws) h = apply_writes ws (set_completion_date h a cd)"
  by (simp add: apply_writes_def)

lemma apply_writes_Nil: "apply_writes [] h = h"
  by (simp add: apply_writes_def)

lemma recent_loop_plan:
  "same_ids h h2 \<Longrightarrow>
   recent_loop logs ts h2 acc =
     (case planned_writes h ts logs of
        (ws, r) \<Rightarrow> (apply_writes ws h2, case r of None \<Rightarrow> Inr (acc @ map fst ws) | Some e \<Rightarrow> Inl e))"
proof (induction logs arbitrary: h2 acc)
  case Nil
  show ?case by (simp add: apply_writes_Nil)
next
  case (Cons log logs)
  note same = reconcile_entry_same_ids [OF Cons.prems]
  show ?case
  proof (cases "reconcile_entry h ts log")
    case (Inl e)
    then show ?thesis by (simp add: same apply_writes_Nil)
  next
    case (Inr r)
    show ?thesis
    proof (cases r)
      case None
      with Inr show ?thesis by (simp add: same Cons.IH [OF Cons.prems])
    next
      case (Some w)
      obtain a cd where w: "w = (a, cd)" by (cases w)
      have "same_ids h (set_completion_date h2 a cd)"
        using Cons.prems by (rule same_ids_write)
      from Cons.IH [OF this] Inr Some w show ?thesis
        by (simp add: same apply_writes_Cons split: prod.splits option.splits)
    qed
  qed
qed

lemma log_qualifies_spec: "log_qualifies log = Inr b \<Longrightarrow> b = is_done_update log"
  unfolding log_qualifies_def is_done_update_def status_new_value_def dict_getitem_def
  by (auto simp: py_eq_JStr dict_get_def
      split: option.splits if_splits sum.splits json.splits elim!: attr_get.elims)

lemma find_Some_holds: "find P xs = Some x \<Longrightarrow> x \<in> set xs \<and> P x"
  by (induction xs) (auto split: if_splits)

lemma find_Some_nonempty: "find (id_matches h tid) ts = Some a \<Longrightarrow> h a \<noteq> []"
  by (auto dest!: find_Some_holds simp: id_matches_def)

lemma references_id:
  "map_of log ''auditable_id'' = Some tid \<Longrightarrow> references h log = id_matches h tid"
  by (rule ext) (simp add: references_def)

lemma reconcile_entry_None:
  "reconcile_entry h ts log = Inr None \<Longrightarrow> \<not> entry_reconciles h ts log"
  unfolding reconcile_entry_def entry_reconciles_def
  by (auto simp: dict_getitem_def find_None_iff references_id
      split: sum.splits option.splits bool.splits if_splits
      dest!: log_qualifies_spec find_ticket_find dest: find_Some_nonempty)

lemma reconcile_entry_Some:
  "reconcile_entry h ts log = Inr (Some (a, cd)) \<Longrightarrow>
   entry_reconciles h ts log \<and> matching_ticket h ts log = Some a \<and>
   formatted_created_at log = Some cd"
  unfolding reconcile_entry_def entry_reconciles_def matching_ticket_def formatted_created_at_def
  by (auto simp: dict_getitem_def references_id
      split: sum.splits option.splits bool.splits if_splits
      dest!: log_qualifies_spec find_ticket_find dest: find_Some_holds)

lemma planned_writes_spec:
  "planned_writes h ts logs = (ws, None) \<Longrightarrow>
   ws = map (expected_write h ts) (filter (entry_reconciles h ts) logs)"
proof (induction logs arbitrary: ws)
  case Nil
  then show ?case by simp
next
  case (Cons log logs)
  show ?case
  proof (cases "reconcile_entry h ts log")
    case (Inl e)
    with Cons.prems show ?thesis by simp
  next
    case (Inr r)
    show ?thesis
    proof (cases r)
      case None
      with Inr Cons show ?thesis by (simp add: reconcile_entry_None)
    next
      case (Some w)
      obtain a cd where w: "w = (a, cd)" by (cases w)
      from Inr Some w have step: "reconcile_entry h ts log = Inr (Some (a, cd))" by simp
      from Cons.prems step obtain ws' where ws': "planned_writes h ts logs = (ws', None)"
        and ws: "ws = (a, cd) # ws'"
        by (auto split: prod.splits)
      from reconcile_entry_Some [OF step] Cons.IH [OF ws'] ws show ?thesis
        by (simp add: expected_write_def)
    qed
  qed
qed

lemma get_recent_plan:
  "get_recent_done_tickets h logs ts =
     (case planned_writes h ts logs of
        (ws, r) \<Rightarrow> (apply_writes ws h, case r of None \<Rightarrow> Inr (map fst ws) | Some e \<Rightarrow> Inl e))"
  unfolding get_recent_done_tickets_def
  by (simp add: recent_loop_plan [OF same_ids_refl] split: prod.splits option.splits)

lemma get_recent_returns:
  assumes "get_recent_done_tickets h logs ts = (h', Inr out)"
  shows "planned_writes h ts logs = (map (expected_write h ts) (filter (entry_reconciles h ts) logs), None)"
    and "h' = apply_writes (map (expected_write h ts) (filter (entry_reconciles h ts) logs)) h"
    and "out = map (\<lambda>log. the (matching_ticket h ts log)) (filter (entry_reconciles h ts) logs)"
proof -
  obtain ws r where p: "planned_writes h ts logs = (ws, r)" by (cases "planned_writes h ts logs")
  with assms have r: "r = None" and h': "h' = apply_writes ws h" and out: "out = map fst ws"
    by (auto simp: get_recent_plan split: option.splits)
  from p r have ws: "ws = map (expected_write h ts) (filter (entry_reconciles h ts) logs)"
    by (simp add: planned_writes_spec)
  from p r ws show "planned_writes h ts logs = (map (expected_write h ts) (filter (entry_reconciles h ts) logs), None)"
    by simp
  from h' ws show "h' = apply_writes (map (expected_write h ts) (filter (entry_reconciles h ts) logs)) h"
    by simp
  from out ws show "out = map (\<lambda>log. the (matching_ticket h ts log)) (filter (entry_reconciles h ts) logs)"
    by (simp add: expected_write_def comp_def)
qed

lemma is_done_update_qualifies: "is_done_update log \<Longrightarrow> log_qualifies log = Inr True"
  unfolding log_qualifies_def is_done_update_def status_new_value_def dict_getitem_def
  by (auto simp: dict_get_def split: option.splits json.splits)

lemma well_formed_log_qualifies:
  assumes "well_formed_log log"
  shows "log_qualifies log = Inr (is_done_update log)"
proof -
  from assms obtain act ch where act: "map_of log ''action'' = Some act"
    and ch: "map_of log ''changes'' = Some ch"
    by (auto simp: well_formed_log_def split: option.splits)
  show ?thesis
  proof (cases "act = JStr ''update''")
    case False
    with act show ?thesis
      by (simp add: log_qualifies_def is_done_update_def dict_getitem_def py_eq_JStr)
  next
    case True
    show ?thesis
    proof (cases ch)
      case (JObj changes)
      show ?thesis
      proof (cases "map_of changes ''status''")
        case None
        with act ch True JObj show ?thesis
          by (simp add: log_qualifies_def is_done_update_def dict_getitem_def
              status_new_value_def dict_get_def)
      next
        case (Some delta)
        with assms ch JObj obtain st where st: "delta = JObj st"
          by (cases delta) (simp_all add: well_formed_log_def)
        from Some have "changes \<noteq> []" by auto
        with act ch True JObj Some st show ?thesis
          by (simp add: log_qualifies_def is_done_update_def dict_getitem_def
              status_new_value_def dict_get_def py_eq_JStr split: option.splits)
      qed
    qed (use assms act ch True in
        \<open>simp_all add: well_formed_log_def log_qualifies_def is_done_update_def
           dict_getitem_def status_new_value_def\<close>)
  qed
qed

lemma reconcile_entry_well_formed:
  assumes "well_formed_log log" and "\<forall>a \<in> set ts. map_of (h a) ''id'' \<noteq> None"
    and "entry_reconciles h ts log \<longrightarrow> formatted_created_at log \<noteq> None"
  shows "reconcile_entry h ts log =
     Inr (if entry_reconciles h ts log then Some (expected_write h ts log) else None)"
proof -
  have q: "log_qualifies log = Inr (is_done_update log)"
    using assms(1) by (rule well_formed_log_qualifies)
  obtain tid where tid: "map_of log ''auditable_id'' = Some tid"
    using assms(1) by (auto simp: well_formed_log_def)
  have f: "find_ticket h ts tid = Inr (find (id_matches h tid) ts)"
    using assms(2) by (rule find_ticket_total)
  note r = references_id [OF tid]
  show ?thesis
  proof (cases "is_done_update log")
    case False
    then show ?thesis by (simp add: reconcile_entry_def q entry_reconciles_def)
  next
    case True
    show ?thesis
    proof (cases "find (id_matches h tid) ts")
      case None
      then have "\<not> entry_reconciles h ts log"
        by (simp add: entry_reconciles_def r find_None_iff)
      with True None show ?thesis
        by (simp add: reconcile_entry_def q tid f dict_getitem_def)
    next
      case (Some a)
      from find_Some_holds [OF Some] True have rec: "entry_reconciles h ts log"
        by (auto simp: entry_reconciles_def r)
      with assms(3) obtain cd where cd: "formatted_created_at log = Some cd" by auto
      then obtain v dt where v: "map_of log ''created_at'' = Some v"
        and dt: "strptime v = Inr dt" and "cd = strftime dt"
        by (auto simp: formatted_created_at_def split: option.splits sum.splits)
      with cd show ?thesis
        by (simp add: reconcile_entry_def q tid f dict_getitem_def True Some
            find_Some_nonempty [OF Some] rec expected_write_def matching_ticket_def r)
    qed
  qed
qed

lemma planned_writes_well_formed:
  assumes "\<forall>a \<in> set ts. map_of (h a) ''id'' \<noteq> None"
    and "\<forall>log \<in> set logs. well_formed_log log \<and>
           (entry_reconciles h ts log \<longrightarrow> formatted_created_at log \<noteq> None)"
  shows "planned_writes h ts logs =
     (map (expected_write h ts) (filter (entry_reconciles h ts) logs), None)"
  using assms(2)
  by (induction logs) (simp_all add: reconcile_entry_well_formed [OF _ assms(1)])

lemma apply_writes_snoc:
  "apply_writes (ws @ [(a, cd)]) h = set_completion_date (apply_writes ws h) a cd"
  by (simp add: apply_writes_def)

lemma apply_writes_at:
  "apply_writes ws h a =
     (case map_of (rev ws) a of
        None \<Rightarrow> h a
      | Some cd \<Rightarrow> dict_setitem (h a) ''completion_date'' (JStr cd))"
proof (induction ws arbitrary: a rule: rev_induct)
  case Nil
  show ?case by (simp add: apply_writes_Nil)
next
  case (snoc w ws)
  obtain b cd where w: "w = (b, cd)" by (cases w)
  show ?case
    unfolding w apply_writes_snoc
    by (simp add: set_completion_date_def snoc.IH dict_setitem_twice split: option.splits)
qed

lemma apply_writes_idem: "apply_writes ws (apply_writes ws h) = apply_writes ws h"
  by (rule ext) (simp add: apply_writes_at dict_setitem_twice split: option.splits)

lemma same_ids_apply_writes: "same_ids h (apply_writes ws h)"
  by (simp add: same_ids_def apply_writes_at map_of_dict_setitem split: option.splits)

lemma planned_writes_same_ids:
  "same_ids h h' \<Longrightarrow> planned_writes h' ts logs = planned_writes h ts logs"
  by (induction logs)
    (simp_all add: reconcile_entry_same_ids split: sum.splits option.splits)

lemma planned_writes_append:
  "planned_writes h ts (xs @ ys) =
     (case planned_writes h ts xs of
        (ws, None) \<Rightarrow> (case planned_writes h ts ys of (ws', r) \<Rightarrow> (ws @ ws', r))
      | (ws, Some e) \<Rightarrow> (ws, Some e))"
  by (induction xs) (auto split: sum.splits option.splits prod.splits)

lemma reconcile_entry_done:
  assumes "is_done_update log" and "map_of log ''auditable_id'' = Some tid"
    and "find_ticket h ts tid = Inr (Some a)" and "map_of log ''created_at'' = Some v"
  shows "reconcile_entry h ts log =
     (case strptime v of Inl e \<Rightarrow> Inl e | Inr dt \<Rightarrow> Inr (Some (a, strftime dt)))"
proof -
  from assms(3) have "h a \<noteq> []" by (auto dest: find_ticket_has_id)
  with assms show ?thesis
    by (simp add: reconcile_entry_def is_done_update_qualifies dict_getitem_def)
qed

lemma find_ticket_member: "find_ticket h ts tid = Inr (Some a) \<Longrightarrow> a \<in> set ts"
  by (induction ts) (auto simp: dict_getitem_def split: option.splits if_splits)

lemma strptime_string_error: "strptime (JStr s) = Inl e \<Longrightarrow> e = ValueError"
  by (auto simp: strptime_def split: option.splits if_splits)

lemma apply_writes_append: "apply_writes (xs @ ys) h = apply_writes ys (apply_writes xs h)"
  by (simp add: apply_writes_def)

lemma get_recent_append:
  assumes "get_recent_done_tickets h pre ts = (h1, Inr out1)"
  shows "get_recent_done_tickets h (pre @ post) ts =
     (case get_recent_done_tickets h1 post ts of
        (h', r) \<Rightarrow> (h', map_sum id (\<lambda>out. out1 @ out) r))"
proof -
  obtain ws r where p: "planned_writes h ts pre = (ws, r)"
    by (cases "planned_writes h ts pre")
  with assms have r: "r = None" and h1: "h1 = apply_writes ws h" and out1: "out1 = map fst ws"
    by (auto simp: get_recent_plan split: option.splits)
  have "same_ids h (apply_writes ws h)" by (rule same_ids_apply_writes)
  then have q: "planned_writes (apply_writes ws h) ts post = planned_writes h ts post"
    by (rule planned_writes_same_ids)
  obtain ws2 r2 where p2: "planned_writes h ts post = (ws2, r2)"
    by (cases "planned_writes h ts post")
  show ?thesis
    unfolding h1 out1 get_recent_plan planned_writes_append p r q p2
    by (simp add: apply_writes_append split: option.splits)
qed

lemma get_recent_single:
  assumes "reconcile_entry h ts log = Inr (Some (a, cd))"
  shows "get_recent_done_tickets h (log # logs) ts =
     (case get_recent_done_tickets (set_completion_date h a cd) logs ts of
        (h', r) \<Rightarrow> (h', map_sum id ((#) a) r))"
proof -
  have "get_recent_done_tickets h (log # logs) ts =
      recent_loop logs ts (set_completion_date h a cd) [a]"
    by (simp add: get_recent_done_tickets_def assms)
  also have "\<dots> = (case get_recent_done_tickets (set_completion_date h a cd) logs ts of
        (h', r) \<Rightarrow> (h', map_sum id ((#) a) r))"
    by (simp add: recent_loop_plan [OF same_ids_refl] get_recent_plan
        split: prod.splits option.splits)
  finally show ?thesis .
qed

lemma get_recent_same_ids_entry:
  assumes "get_recent_done_tickets h pre ts = (h1, Inr out1)"
  shows "reconcile_entry h1 ts log = reconcile_entry h ts log"
proof -
  obtain ws r where p: "planned_writes h ts pre = (ws, r)"
    by (cases "planned_writes h ts pre")
  with assms have "h1 = apply_writes ws h"
    by (auto simp: get_recent_plan split: option.splits)
  then have "same_ids h h1" by (simp add: same_ids_apply_writes)
  then show ?thesis by (rule reconcile_entry_same_ids)
qed

lemma entry_reconciles_matches:
  "entry_reconciles h ts log \<Longrightarrow> \<exists>a. matching_ticket h ts log = Some a"
  by (cases "matching_ticket h ts log")
    (auto simp: entry_reconciles_def matching_ticket_def find_None_iff)

lemma map_of_rev_writes:
  "map_of (rev (map f xs)) a =
     (if filter (\<lambda>x. fst (f x) = a) xs = [] then None
      else Some (snd (f (last (filter (\<lambda>x. fst (f x) = a) xs)))))"
  by (induction xs rule: rev_induct) (auto simp: map_of_eq_None_iff)

lemma entries_for_conj:
  "filter (\<lambda>log. entry_reconciles h ts log \<and> fst (expected_write h ts log) = a) logs =
   entries_for h ts a logs"
  unfolding entries_for_def
  by (rule filter_cong)
    (auto simp: reconciles_to_def expected_write_def dest: entry_reconciles_matches)

lemma entries_for_writes:
  "filter (\<lambda>log. fst (expected_write h ts log) = a) (filter (entry_reconciles h ts) logs) =
   entries_for h ts a logs"
  unfolding filter_filter by (rule entries_for_conj)

text \<open>
  Two checks of the library model against CPython 3.11 on Linux: a year written with the
  Arabic-Indic digits (U+0660 to U+0669, two bytes each in UTF-8) parses, and a year below
  1000 is written without padding.
\<close>

lemma strptime_unicode_digits:
  "strptime (JStr ([CHR 0xD9, CHR 0xA2, CHR 0xD9, CHR 0xA0, CHR 0xD9, CHR 0xA2, CHR 0xD9, CHR 0xA4]
       @ ''-11-20T10:00:00.0'')) =
   Inr \<lparr>year = 2024, month = 11, day = 20, hour = 10, minute = 0, second = 0,
        microsecond = 0\<rparr>"
  by code_simp

lemma strftime_year_below_1000:
  "strftime \<lparr>year = 999, month = 1, day = 2, hour = 3, minute = 4, second = 5,
     microsecond = 0\<rparr> = ''999-01-02 03:04:05''"
  by code_simp

section \<open>The classifier: the two loops\<close>

lemma map_fst_dict_setitem:
  "map_of d k \<noteq> None \<Longrightarrow> map fst (dict_setitem d k v) = map fst d"
  by (induction d) auto

lemma summary_contains_True:
  "summary_contains sm st = Inr True \<Longrightarrow> \<exists>s. st = JStr s \<and> map_of sm s \<noteq> None"
  by (cases st) (auto simp: summary_contains_def split: if_splits)

lemma summary_contains_False:
  "summary_contains sm st = Inr False \<Longrightarrow> hashable st \<and> (\<forall>s. st = JStr s \<longrightarrow> map_of sm s = None)"
  by (cases st) (auto simp: summary_contains_def split: if_splits)

lemma map_of_summary_append:
  "map_of sm s \<noteq> None \<Longrightarrow>
   map_of (summary_append sm s a) b =
     (if b = s then map_option (\<lambda>l. l @ [a]) (map_of sm s) else map_of sm b)"
  by (auto simp: summary_append_def map_of_dict_setitem dict_get_def)

lemma map_fst_summary_append:
  "map_of sm s \<noteq> None \<Longrightarrow> map fst (summary_append sm s a) = map fst sm"
  by (simp add: summary_append_def map_fst_dict_setitem)

lemma classify_loop_heap: "fst (classify_loop ts h sm rs) = h"
  by (induction ts arbitrary: sm rs)
    (auto split: sum.splits bool.splits json.splits)

lemma classify_loop_result:
  "classify_loop ts h sm rs = (h', Inr (sm', rs')) \<Longrightarrow>
   rs' = rs @ filter (is_risk h) ts \<and> map fst sm' = map fst sm \<and>
   (\<forall>b. map_of sm' b = map_option (\<lambda>l. l @ filter (in_bucket h b) ts) (map_of sm b))"
proof (induction ts arbitrary: sm rs)
  case Nil
  then show ?case by (simp add: option.map_ident)
next
  case (Cons a ts)
  from Cons.prems obtain ty where ty: "map_of (h a) ''type'' = Some ty"
    by (auto simp: dict_getitem_def split: option.splits)
  show ?case
  proof (cases "ty = JStr ''Risk''")
    case True
    with ty Cons.prems have "classify_loop ts h sm (rs @ [a]) = (h', Inr (sm', rs'))"
      by (simp add: dict_getitem_def)
    from Cons.IH [OF this] True ty show ?thesis
      by (simp add: is_risk_def in_bucket_def)
  next
    case False
    with ty have nr: "\<not> is_risk h a" by (simp add: is_risk_def)
    from False ty Cons.prems obtain st where st: "map_of (h a) ''status'' = Some st"
      by (auto simp: dict_getitem_def py_eq_JStr split: option.splits)
    from False ty st Cons.prems obtain c where c: "summary_contains sm st = Inr c"
      by (auto simp: dict_getitem_def py_eq_JStr split: sum.splits)
    show ?thesis
    proof (cases c)
      case True
      with c obtain s where s: "st = JStr s" "map_of sm s \<noteq> None"
        by (auto dest: summary_contains_True)
      with False ty st c True Cons.prems
      have "classify_loop ts h (summary_append sm s a) rs = (h', Inr (sm', rs'))"
        by (simp add: dict_getitem_def py_eq_JStr)
      from Cons.IH [OF this] nr st s show ?thesis
        by (auto simp: map_of_summary_append map_fst_summary_append in_bucket_def
            option.map_comp comp_def)
    next
      case False
      with c have no: "\<forall>s. st = JStr s \<longrightarrow> map_of sm s = None"
        by (auto dest: summary_contains_False)
      from \<open>ty \<noteq> JStr ''Risk''\<close> ty st c False Cons.prems
      have "classify_loop ts h sm rs = (h', Inr (sm', rs'))"
        by (simp add: dict_getitem_def py_eq_JStr)
      from Cons.IH [OF this] nr st no show ?thesis
        by (auto simp: in_bucket_def)
    qed
  qed
qed

lemma insort_py_mset: "insort_py key x ys = Inr zs \<Longrightarrow> mset zs = add_mset x (mset ys)"
  by (induction ys arbitrary: zs) (auto split: sum.splits bool.splits)

lemma sorted_py_mset: "sorted_py key xs = Inr ys \<Longrightarrow> mset ys = mset xs"
  by (induction xs arbitrary: ys) (auto split: sum.splits dest: insort_py_mset)

lemma insort_py_strings:
  "key x = JStr (sk x) \<Longrightarrow> \<forall>y \<in> set ys. key y = JStr (sk y) \<Longrightarrow>
   insort_py key x ys = Inr (insort_key sk x ys)"
  by (induction ys) (auto simp flip: not_less)

lemma sorted_py_strings:
  "\<forall>x \<in> set xs. key x = JStr (sk x) \<Longrightarrow> sorted_py key xs = Inr (sort_key sk xs)"
  by (induction xs) (simp_all add: insort_py_strings)

lemma start_key_string: "start_key h a = JStr s \<Longrightarrow> start_key h a = JStr (start_string h a)"
  by (simp add: start_string_def)

lemma sort_loop_heap: "fst (sort_loop items h sm) = h"
  by (induction items arbitrary: sm) (auto split: sum.splits)

lemma sort_loop_result:
  "sort_loop items h sm = (h', Inr sm') \<Longrightarrow> distinct (map fst items) \<Longrightarrow>
   (\<forall>b. map_of items b = None \<longrightarrow> map_of sm' b = map_of sm b) \<and>
   (\<forall>b l. map_of items b = Some l \<longrightarrow>
      (\<exists>l'. sorted_py (start_key h) l = Inr l' \<and> map_of sm' b = Some l'))"
proof (induction items arbitrary: sm)
  case Nil
  then show ?case by simp
next
  case (Cons item items)
  obtain status l where item: "item = (status, l)" by (cases item)
  from Cons.prems(1) item obtain sl where sl: "sorted_py (start_key h) l = Inr sl"
    and rest: "sort_loop items h (dict_setitem sm status sl) = (h', Inr sm')"
    by (auto split: sum.splits)
  from Cons.prems(2) item have d: "distinct (map fst items)" and fresh: "map_of items status = None"
    by (auto simp: map_of_eq_None_iff)
  note IH = Cons.IH [OF rest d]
  show ?case
  proof (intro conjI allI impI)
    fix b
    assume "map_of (item # items) b = None"
    then have "b \<noteq> status" and "map_of items b = None"
      by (auto simp: item split: if_splits)
    with IH show "map_of sm' b = map_of sm b"
      by (simp add: map_of_dict_setitem)
  next
    fix b l0
    assume b: "map_of (item # items) b = Some l0"
    show "\<exists>l'. sorted_py (start_key h) l0 = Inr l' \<and> map_of sm' b = Some l'"
    proof (cases "b = status")
      case True
      with b item have "l0 = l" by simp
      moreover from IH fresh have "map_of sm' status = Some sl"
        by (simp add: map_of_dict_setitem)
      ultimately show ?thesis using sl True by simp
    next
      case False
      with b item have "map_of items b = Some l0" by simp
      with IH show ?thesis by blast
    qed
  qed
qed

lemma sort_loop_keys:
  "sort_loop items h sm = (h', Inr sm') \<Longrightarrow> \<forall>k \<in> set (map fst items). map_of sm k \<noteq> None \<Longrightarrow>
   map fst sm' = map fst sm"
proof (induction items arbitrary: sm)
  case Nil
  then show ?case by simp
next
  case (Cons item items)
  obtain status l where item: "item = (status, l)" by (cases item)
  from Cons.prems(1) item obtain sl where
    rest: "sort_loop items h (dict_setitem sm status sl) = (h', Inr sm')"
    by (auto split: sum.splits)
  from Cons.prems(2) item have k: "map_of sm status \<noteq> None" by simp
  from Cons.prems(2) have "\<forall>k \<in> set (map fst items). map_of (dict_setitem sm status sl) k \<noteq> None"
    by (simp add: map_of_dict_setitem)
  from Cons.IH [OF rest this] k show ?case
    by (simp add: map_fst_dict_setitem)
qed

lemma sort_loop_total:
  "\<forall>(k, l) \<in> set items. \<exists>l'. sorted_py (start_key h) l = Inr l' \<Longrightarrow>
   \<exists>sm'. sort_loop items h sm = (h, Inr sm')"
  by (induction items arbitrary: sm) auto

lemma classify_loop_total:
  "\<forall>a \<in> set ts. classifiable h a \<Longrightarrow> \<exists>sm' rs'. classify_loop ts h sm rs = (h, Inr (sm', rs'))"
proof (induction ts arbitrary: sm rs)
  case Nil
  then show ?case by simp
next
  case (Cons a ts)
  from Cons.prems have rest: "\<forall>a \<in> set ts. classifiable h a" and a: "classifiable h a"
    by simp_all
  from a obtain ty where ty: "map_of (h a) ''type'' = Some ty"
    by (auto simp: classifiable_def split: option.splits)
  show ?case
  proof (cases "ty = JStr ''Risk''")
    case True
    with ty Cons.IH [OF rest] show ?thesis by (simp add: dict_getitem_def)
  next
    case False
    with a ty obtain st where st: "map_of (h a) ''status'' = Some st" and hs: "hashable st"
      by (auto simp: classifiable_def split: option.splits)
    from hs obtain c where c: "summary_contains sm st = Inr c"
      by (simp add: summary_contains_def)
    with False ty st Cons.IH [OF rest] show ?thesis
      by (auto simp: dict_getitem_def py_eq_JStr split: bool.splits json.splits)
  qed
qed

lemma map_of_init:
  "map_of tickets_summary_init b = (if b \<in> set status_keys then Some [] else None)"
  by (simp add: tickets_summary_init_def status_keys_def)

lemma keys_init: "map fst tickets_summary_init = status_keys"
  by (simp add: tickets_summary_init_def status_keys_def)

lemma distinct_status_keys: "distinct status_keys"
  by (simp add: status_keys_def)

lemma categorize_result:
  assumes "categorize_tickets h ts = (h', Inr (sm', rs))"
  shows "h' = h" and "rs = filter (is_risk h) ts" and "map fst sm' = status_keys"
    and "\<forall>b \<in> set status_keys.
           sorted_py (start_key h) (filter (in_bucket h b) ts) = Inr (bucket sm' b)"
proof -
  obtain h1 r1 where c: "classify_loop ts h tickets_summary_init [] = (h1, r1)"
    by (cases "classify_loop ts h tickets_summary_init []")
  from classify_loop_heap [of ts h tickets_summary_init "[]"] c have h1: "h1 = h" by simp
  from assms c obtain sm where r1: "r1 = Inr (sm, rs)"
    by (auto simp: categorize_tickets_def split: sum.splits prod.splits)
  obtain h2 r2 where s: "sort_loop sm h sm = (h2, r2)" by (cases "sort_loop sm h sm")
  from sort_loop_heap [of sm h sm] s have h2: "h2 = h" by simp
  from assms c r1 h1 s have r2: "r2 = Inr sm'" and "h' = h2"
    by (auto simp: categorize_tickets_def split: sum.splits)
  with h2 show "h' = h" by simp
  note cl = classify_loop_result [OF c [unfolded r1]]
  from cl show "rs = filter (is_risk h) ts" by simp
  from cl have keys: "map fst sm = status_keys" by (simp add: keys_init)
  from cl have look: "map_of sm b = (if b \<in> set status_keys then Some (filter (in_bucket h b) ts) else None)" for b
    by (simp add: map_of_init)
  from keys have d: "distinct (map fst sm)" by (simp add: distinct_status_keys)
  note sl = sort_loop_result [OF s [unfolded r2 h2] d]
  have "\<forall>k \<in> set (map fst sm). map_of sm k \<noteq> None"
    by (simp add: keys look)
  from sort_loop_keys [OF s [unfolded r2 h2] this] keys
  show "map fst sm' = status_keys" by simp
  show "\<forall>b \<in> set status_keys.
           sorted_py (start_key h) (filter (in_bucket h b) ts) = Inr (bucket sm' b)"
  proof
    fix b assume "b \<in> set status_keys"
    then have "map_of sm b = Some (filter (in_bucket h b) ts)" by (simp add: look)
    with sl obtain l' where "sorted_py (start_key h) (filter (in_bucket h b) ts) = Inr l'"
      and "map_of sm' b = Some l'"
      by blast
    then show "sorted_py (start_key h) (filter (in_bucket h b) ts) = Inr (bucket sm' b)"
      by (simp add: bucket_def dict_get_def)
  qed
qed

lemma categorize_returns:
  assumes "\<forall>a \<in> set ts. classifiable h a"
    and "\<forall>a \<in> set ts. \<forall>b \<in> set status_keys. in_bucket h b a \<longrightarrow> (\<exists>s. start_key h a = JStr s)"
  shows "\<exists>sm rs. categorize_tickets h ts = (h, Inr (sm, rs))"
proof -
  from classify_loop_total [OF assms(1)] obtain sm rs
    where c: "classify_loop ts h tickets_summary_init [] = (h, Inr (sm, rs))"
    by blast
  note cl = classify_loop_result [OF c]
  from cl have keys: "map fst sm = status_keys" by (simp add: keys_init)
  from cl have look: "map_of sm b = (if b \<in> set status_keys then Some (filter (in_bucket h b) ts) else None)" for b
    by (simp add: map_of_init)
  have "\<forall>(k, l) \<in> set sm. \<exists>l'. sorted_py (start_key h) l = Inr l'"
  proof (clarify)
    fix k l assume kl: "(k, l) \<in> set sm"
    from keys have "distinct (map fst sm)" by (simp add: distinct_status_keys)
    with kl have "map_of sm k = Some l" by simp
    with look [of k] have k: "k \<in> set status_keys" and l: "l = filter (in_bucket h k) ts"
      by (auto split: if_splits)
    have "\<forall>a \<in> set l. start_key h a = JStr (start_string h a)"
      using assms(2) k unfolding l by (auto dest: start_key_string)
    then have "sorted_py (start_key h) l = Inr (sort_key (start_string h) l)"
      by (rule sorted_py_strings)
    then show "\<exists>l'. sorted_py (start_key h) l = Inr l'" by blast
  qed
  from sort_loop_total [OF this] obtain sm' where "sort_loop sm h sm = (h, Inr sm')"
    by blast
  with c show ?thesis by (simp add: categorize_tickets_def)
qed

lemma partition_mset:
  "mset (filter (is_risk h) ts) + (\<Sum>b\<leftarrow>status_keys. mset (filter (in_bucket h b) ts)) =
   mset (filter (\<lambda>a. is_risk h a \<or> recognized h a) ts)"
  by (induction ts) (auto simp: status_keys_def in_bucket_def recognized_def)

lemma classify_loop_append:
  "classify_loop (xs @ ys) h sm rs =
     (case classify_loop xs h sm rs of
        (h1, Inl e) \<Rightarrow> (h1, Inl e)
      | (h1, Inr (sm', rs')) \<Rightarrow> classify_loop ys h1 sm' rs')"
  by (induction xs arbitrary: sm rs) (auto split: sum.splits bool.splits json.splits)

lemma classify_loop_step:
  "classify_loop (a # ts) h sm rs =
     (case map_of (h a) ''type'' of
        None \<Rightarrow> (h, Inl (KeyError ''type''))
      | Some ty \<Rightarrow>
          if ty = JStr ''Risk'' then classify_loop ts h sm (rs @ [a])
          else
            (case map_of (h a) ''status'' of
               None \<Rightarrow> (h, Inl (KeyError ''status''))
             | Some st \<Rightarrow>
                 if \<not> hashable st then (h, Inl TypeError)
                 else
                   (case st of
                      JStr s \<Rightarrow>
                        if map_of sm s \<noteq> None
                        then classify_loop ts h (summary_append sm s a) rs
                        else classify_loop ts h sm rs
                    | _ \<Rightarrow> classify_loop ts h sm rs)))"
  by (simp add: dict_getitem_def py_eq_JStr summary_contains_def
      split: option.splits json.splits)

lemma classify_loop_Cons_Inr:
  assumes "classify_loop (a # ts) h sm rs = (h1, Inr p)"
  shows "missing_field h a = None \<and> (\<exists>sm2 rs2. classify_loop ts h sm2 rs2 = (h1, Inr p))"
proof (cases "map_of (h a) ''type''")
  case None
  with assms show ?thesis by (simp add: classify_loop_step del: classify_loop.simps)
next
  case (Some ty)
  show ?thesis
  proof (cases "ty = JStr ''Risk''")
    case True
    with Some assms show ?thesis
      by (auto simp: classify_loop_step missing_field_def simp del: classify_loop.simps)
  next
    case False
    show ?thesis
    proof (cases "map_of (h a) ''status''")
      case None
      with Some False assms show ?thesis
        by (simp add: classify_loop_step del: classify_loop.simps)
    next
      case st: (Some st)
      with Some False assms have "\<exists>sm2 rs2. classify_loop ts h sm2 rs2 = (h1, Inr p)"
        by (cases st)
          (auto simp: classify_loop_step simp del: classify_loop.simps split: if_splits)
      with st Some False show ?thesis by (simp add: missing_field_def)
    qed
  qed
qed

lemma classify_loop_Cons_Inl:
  assumes "classify_loop (a # ts) h sm rs = (h1, Inl e)"
  shows "(missing_field h a = None \<and> e = TypeError \<and> h1 = h) \<or>
         (\<exists>k. missing_field h a = Some k \<and> e = KeyError k \<and> h1 = h) \<or>
         (missing_field h a = None \<and> (\<exists>sm2 rs2. classify_loop ts h sm2 rs2 = (h1, Inl e)))"
proof (cases "map_of (h a) ''type''")
  case None
  with assms show ?thesis
    by (simp add: classify_loop_step missing_field_def del: classify_loop.simps)
next
  case (Some ty)
  show ?thesis
  proof (cases "ty = JStr ''Risk''")
    case True
    with Some assms show ?thesis
      by (auto simp: classify_loop_step missing_field_def simp del: classify_loop.simps)
  next
    case False
    show ?thesis
    proof (cases "map_of (h a) ''status''")
      case None
      with Some False assms show ?thesis
        by (simp add: classify_loop_step missing_field_def del: classify_loop.simps)
    next
      case st: (Some st)
      with Some False have m: "missing_field h a = None" by (simp add: missing_field_def)
      from st Some False assms
      have "(e = TypeError \<and> h1 = h) \<or> (\<exists>sm2 rs2. classify_loop ts h sm2 rs2 = (h1, Inl e))"
        by (cases st)
          (auto simp: classify_loop_step simp del: classify_loop.simps split: if_splits)
      with m show ?thesis by blast
    qed
  qed
qed

lemma missing_field_cases:
  "missing_field h a = Some k \<Longrightarrow>
   (k = ''type'' \<and> map_of (h a) ''type'' = None) \<or>
   (k = ''status'' \<and> \<not> is_risk h a \<and> map_of (h a) ''status'' = None)"
  by (auto simp: missing_field_def is_risk_def split: option.splits if_splits)

lemma classify_loop_no_missing:
  "classify_loop ts h sm rs = (h1, Inr p) \<Longrightarrow> a \<in> set ts \<Longrightarrow> missing_field h a = None"
proof (induction ts arbitrary: sm rs)
  case Nil
  then show ?case by simp
next
  case (Cons b ts)
  from classify_loop_Cons_Inr [OF Cons.prems(1)] Cons.IH Cons.prems(2) show ?case
    by auto
qed

lemma classify_loop_errors:
  "classify_loop ts h sm rs = (h1, Inl e) \<Longrightarrow>
   e = TypeError \<or> e = KeyError ''type'' \<or> e = KeyError ''status''"
proof (induction ts arbitrary: sm rs)
  case Nil
  then show ?case by simp
next
  case (Cons b ts)
  from classify_loop_Cons_Inl [OF Cons.prems(1)] Cons.IH show ?case
    by (auto dest: missing_field_cases)
qed

lemma classify_loop_status_error:
  "classify_loop ts h sm rs = (h1, Inl (KeyError ''status'')) \<Longrightarrow>
   \<exists>a \<in> set ts. \<not> is_risk h a \<and> map_of (h a) ''status'' = None"
proof (induction ts arbitrary: sm rs)
  case Nil
  then show ?case by simp
next
  case (Cons b ts)
  from classify_loop_Cons_Inl [OF Cons.prems(1)] Cons.IH show ?case
    by (auto dest: missing_field_cases)
qed

lemma py_lt_error:
  "py_lt x y = Inl e \<Longrightarrow> e = TypeError" and "py_lt_list xs ys = Inl e \<Longrightarrow> e = TypeError"
  by (induction x y and xs ys rule: py_lt_py_lt_list.induct)
    (auto split: option.splits json.splits list.splits if_splits)

lemma insort_py_error: "insort_py key x ys = Inl e \<Longrightarrow> e = TypeError"
  by (induction ys) (auto split: sum.splits bool.splits dest: py_lt_error(1))

lemma sorted_py_error: "sorted_py key xs = Inl e \<Longrightarrow> e = TypeError"
  by (induction xs) (auto split: sum.splits dest: insort_py_error)

lemma sort_loop_error: "sort_loop items h sm = (h1, Inl e) \<Longrightarrow> e = TypeError"
  by (induction items arbitrary: sm) (auto split: sum.splits dest: sorted_py_error)

lemma classify_loop_missing:
  "missing_field h a = Some k \<Longrightarrow> classify_loop (a # ts) h sm rs = (h, Inl (KeyError k))"
  by (auto simp: classify_loop_step missing_field_def simp del: classify_loop.simps
      split: option.splits if_splits)

lemma classify_loop_pair: "classify_loop ts h sm rs = (h, snd (classify_loop ts h sm rs))"
  using classify_loop_heap [of ts h sm rs] by (cases "classify_loop ts h sm rs") simp

lemma sort_loop_pair: "sort_loop items h sm = (h, snd (sort_loop items h sm))"
  using sort_loop_heap [of items h sm] by (cases "sort_loop items h sm") simp

lemma differs_field:
  assumes "differs_in_risk_status h h'" and "k \<noteq> ''status''"
  shows "map_of (h' a) k = map_of (h a) k"
proof -
  from assms(1) have "h' a = h a \<or>
      (is_risk h a \<and> (\<forall>k. k \<noteq> ''status'' \<longrightarrow> map_of (h' a) k = map_of (h a) k))"
    by (simp add: differs_in_risk_status_def)
  with assms(2) show ?thesis by auto
qed

lemma differs_not_risk:
  assumes "differs_in_risk_status h h'" and "\<not> is_risk h a"
  shows "h' a = h a"
proof -
  from assms(1) have "h' a = h a \<or>
      (is_risk h a \<and> (\<forall>k. k \<noteq> ''status'' \<longrightarrow> map_of (h' a) k = map_of (h a) k))"
    by (simp add: differs_in_risk_status_def)
  with assms(2) show ?thesis by auto
qed

lemma classify_loop_risk_status:
  assumes "differs_in_risk_status h h'"
  shows "snd (classify_loop ts h' sm rs) = snd (classify_loop ts h sm rs)"
proof (induction ts arbitrary: sm rs)
  case Nil
  show ?case by simp
next
  case (Cons a ts)
  from assms have ty: "map_of (h' a) ''type'' = map_of (h a) ''type''"
    by (rule differs_field) simp
  show ?case
  proof (cases "is_risk h a")
    case True
    with ty show ?thesis
      by (simp add: classify_loop_step is_risk_def Cons.IH del: classify_loop.simps)
  next
    case False
    with assms have "h' a = h a" by (rule differs_not_risk)
    then show ?thesis
      by (simp add: classify_loop_step Cons.IH del: classify_loop.simps
          split: option.splits json.splits)
  qed
qed

lemma start_key_risk_status:
  assumes "differs_in_risk_status h h'"
  shows "start_key h' = start_key h"
proof
  fix a
  from assms have "map_of (h' a) ''start_date'' = map_of (h a) ''start_date''"
    by (rule differs_field) simp
  then show "start_key h' a = start_key h a"
    by (simp add: start_key_def dict_get_def)
qed

lemma sort_loop_start_key:
  "start_key h' = start_key h \<Longrightarrow> snd (sort_loop items h' sm) = snd (sort_loop items h sm)"
  by (induction items arbitrary: sm) (auto split: sum.splits)

lemma categorize_snd:
  "snd (categorize_tickets h ts) =
     (case snd (classify_loop ts h tickets_summary_init []) of
        Inl e \<Rightarrow> Inl e
      | Inr (sm, rs) \<Rightarrow>
          (case snd (sort_loop sm h sm) of Inl e \<Rightarrow> Inl e | Inr sm' \<Rightarrow> Inr (sm', rs)))"
proof -
  have "categorize_tickets h ts =
     (case (h, snd (classify_loop ts h tickets_summary_init [])) of
        (h1, Inl e) \<Rightarrow> (h1, Inl e)
      | (h1, Inr (sm, risks)) \<Rightarrow>
          (case (h1, snd (sort_loop sm h1 sm)) of
             (h2, Inl e) \<Rightarrow> (h2, Inl e)
           | (h2, Inr sm') \<Rightarrow> (h2, Inr (sm', risks))))"
    unfolding categorize_tickets_def
    by (subst classify_loop_pair) (auto split: sum.splits prod.splits simp: sort_loop_pair [symmetric])
  then show ?thesis by (auto split: sum.splits)
qed

lemma categorize_pair: "categorize_tickets h ts = (h, snd (categorize_tickets h ts))"
proof -
  obtain h1 r1 where c: "classify_loop ts h tickets_summary_init [] = (h1, r1)"
    by (cases "classify_loop ts h tickets_summary_init []")
  from classify_loop_heap [of ts h tickets_summary_init "[]"] c have h1: "h1 = h" by simp
  show ?thesis
  proof (cases r1)
    case (Inl e)
    with c h1 show ?thesis by (simp add: categorize_tickets_def)
  next
    case (Inr p)
    obtain sm rs where p: "p = (sm, rs)" by (cases p)
    from sort_loop_heap [of sm h sm] c h1 Inr p show ?thesis
      by (cases "sort_loop sm h sm") (auto simp: categorize_tickets_def split: sum.splits)
  qed
qed

section \<open>Claims about \<^verbatim>\<open>categorize_tickets\<close>\<close>

text \<open>
  C2. When \<^verbatim>\<open>categorize_tickets\<close> returns, the risk list is the list of the tickets whose
  type is \<open>Risk\<close>, in input order and whatever their status is; the summary has the five
  status keys; the bucket of a key holds exactly the tickets that are not risks and have
  that key as status. So a risk is in the risk list and in no bucket, a ticket that is not
  a risk is in the bucket of its status and in no other list, and nowhere when its status
  is none of the five keys; the risk list and the buckets together are the tickets that
  are risks or have a recognized status. The call does return when every ticket can be
  classified and the start dates of the bucketed tickets are strings or absent.
\<close>

theorem every_ticket_in_one_place:
  "(categorize_tickets h ts = (h', Inr (sm, risks)) \<longrightarrow>
      risks = filter (is_risk h) ts \<and> map fst sm = status_keys \<and>
      (\<forall>b \<in> set status_keys. mset (bucket sm b) = mset (filter (in_bucket h b) ts)) \<and>
      (\<forall>a \<in> set ts.
         if is_risk h a
         then a \<in> set risks \<and> (\<forall>b \<in> set status_keys. a \<notin> set (bucket sm b))
         else a \<notin> set risks \<and>
              (\<forall>b \<in> set status_keys.
                 a \<in> set (bucket sm b) \<longleftrightarrow> map_of (h a) ''status'' = Some (JStr b))) \<and>
      mset risks + (\<Sum>b\<leftarrow>status_keys. mset (bucket sm b)) =
        mset (filter (\<lambda>a. is_risk h a \<or> recognized h a) ts))
   \<and> ((\<forall>a \<in> set ts. classifiable h a) \<and>
       (\<forall>a \<in> set ts. \<forall>b \<in> set status_keys.
          in_bucket h b a \<longrightarrow> (\<exists>s. start_key h a = JStr s)) \<longrightarrow>
      (\<exists>sm risks. categorize_tickets h ts = (h, Inr (sm, risks))))"
proof (intro conjI impI)
  assume run: "categorize_tickets h ts = (h', Inr (sm, risks))"
  note res = categorize_result [OF run]
  from res(2) show risks: "risks = filter (is_risk h) ts" .
  from res(3) show "map fst sm = status_keys" .
  show buckets: "\<forall>b \<in> set status_keys. mset (bucket sm b) = mset (filter (in_bucket h b) ts)"
  proof
    fix b assume "b \<in> set status_keys"
    with res(4) have "sorted_py (start_key h) (filter (in_bucket h b) ts) = Inr (bucket sm b)"
      by blast
    then show "mset (bucket sm b) = mset (filter (in_bucket h b) ts)"
      by (rule sorted_py_mset)
  qed
  then have members: "set (bucket sm b) = {a \<in> set ts. in_bucket h b a}"
    if "b \<in> set status_keys" for b
    using that by (metis mset_eq_setD set_filter)
  show "\<forall>a \<in> set ts.
         if is_risk h a
         then a \<in> set risks \<and> (\<forall>b \<in> set status_keys. a \<notin> set (bucket sm b))
         else a \<notin> set risks \<and>
              (\<forall>b \<in> set status_keys.
                 a \<in> set (bucket sm b) \<longleftrightarrow> map_of (h a) ''status'' = Some (JStr b))"
    by (auto simp: risks members in_bucket_def)
  have sum: "(\<Sum>b\<leftarrow>status_keys. mset (bucket sm b)) =
      (\<Sum>b\<leftarrow>status_keys. mset (filter (in_bucket h b) ts))"
    using buckets by (intro arg_cong [where f = sum_list] map_cong) simp_all
  show "mset risks + (\<Sum>b\<leftarrow>status_keys. mset (bucket sm b)) =
        mset (filter (\<lambda>a. is_risk h a \<or> recognized h a) ts)"
    unfolding risks sum by (rule partition_mset)
next
  assume "(\<forall>a \<in> set ts. classifiable h a) \<and>
       (\<forall>a \<in> set ts. \<forall>b \<in> set status_keys.
          in_bucket h b a \<longrightarrow> (\<exists>s. start_key h a = JStr s))"
  then show "\<exists>sm risks. categorize_tickets h ts = (h, Inr (sm, risks))"
    by (intro categorize_returns) simp_all
qed

text \<open>The first nine tickets of the board: two risks, four open tickets, one dropped.\<close>

theorem every_ticket_in_one_place_witness:
  "categorize_tickets board_heap [0, 1, 2, 3, 4, 5, 6, 7, 8] =
     (board_heap, Inr (board_summary, [2, 3])) \<and>
   list_all (classifiable board_heap) [0, 1, 2, 3, 4, 5, 6, 7, 8] \<and>
   filter (is_risk board_heap) [0, 1, 2, 3, 4, 5, 6, 7, 8] = [2, 3] \<and>
   filter (\<lambda>a. is_risk board_heap a \<or> recognized board_heap a) [0, 1, 2, 3, 4, 5, 6, 7, 8] =
     [0, 1, 2, 3, 4, 5, 6, 8] \<and>
   mset [2, 3] + (\<Sum>b\<leftarrow>status_keys. mset (bucket board_summary b)) =
     mset [0, 1, 2, 3, 4, 5, 6, 8]"
proof -
  let ?ts = "[0, 1, 2, 3, 4, 5, 6, 7, 8] :: addr list"
  have s: "snd (categorize_tickets board_heap ?ts) = Inr (board_summary, [2, 3])"
    by code_simp
  have run: "categorize_tickets board_heap ?ts = (board_heap, Inr (board_summary, [2, 3]))"
    by (subst categorize_pair) (simp only: s)
  have c: "list_all (classifiable board_heap) ?ts" by code_simp
  have r: "filter (is_risk board_heap) ?ts = [2, 3]" by code_simp
  have u: "filter (\<lambda>a. is_risk board_heap a \<or> recognized board_heap a) ?ts =
      [0, 1, 2, 3, 4, 5, 6, 8]"
    by code_simp
  from every_ticket_in_one_place [of board_heap ?ts board_heap board_summary "[2, 3]"] run
  have "mset [2, 3] + (\<Sum>b\<leftarrow>status_keys. mset (bucket board_summary b)) =
      mset (filter (\<lambda>a. is_risk board_heap a \<or> recognized board_heap a) ?ts)"
    by blast
  with run c r u show ?thesis by (simp only:)
qed



text \<open>
  A start date that is present but null is not an absent one: as soon as its bucket holds
  a second ticket, the comparison of the keys raises \<open>TypeError\<close> and no summary is returned.
\<close>

lemma null_start_date_raises:
  "snd (categorize_tickets
     ((\<lambda>a. [(''type'', JStr ''Bug''), (''status'', JStr ''open'')])
        (0 := [(''type'', JStr ''Bug''), (''status'', JStr ''open''), (''start_date'', JNull)]))
     [0, 1]) = Inl TypeError"
  by code_simp

text \<open>
  C6 (as the code has it). A ticket without a type, or a ticket that is not a risk and has
  no status, makes the classification fail with Python's \<open>KeyError\<close> for the missing
  field, raised at the first such ticket when the tickets before it can be classified. A
  list that holds such a ticket is never classified: the call raises that \<open>KeyError\<close>, or
  the \<open>TypeError\<close> of an unhashable status met earlier.
\<close>

theorem missing_field_raises_KeyError:
  "((\<forall>b \<in> set pre. classifiable h b) \<and> missing_field h a = Some k \<longrightarrow>
      categorize_tickets h (pre @ a # post) = (h, Inl (KeyError k)))
   \<and> (a \<in> set ts \<and> missing_field h a \<noteq> None \<longrightarrow>
      (\<exists>e. categorize_tickets h ts = (h, Inl e) \<and>
           (e = TypeError \<or> e = KeyError ''type'' \<or> e = KeyError ''status'')))"
proof (intro conjI impI)
  assume "(\<forall>b \<in> set pre. classifiable h b) \<and> missing_field h a = Some k"
  then have pre: "\<forall>b \<in> set pre. classifiable h b" and a: "missing_field h a = Some k"
    by simp_all
  from classify_loop_total [OF pre] obtain sm rs
    where "classify_loop pre h tickets_summary_init [] = (h, Inr (sm, rs))"
    by blast
  then have "classify_loop (pre @ a # post) h tickets_summary_init [] = (h, Inl (KeyError k))"
    unfolding classify_loop_append by (simp add: classify_loop_missing [OF a] del: classify_loop.simps)
  then show "categorize_tickets h (pre @ a # post) = (h, Inl (KeyError k))"
    by (simp add: categorize_tickets_def)
next
  assume "a \<in> set ts \<and> missing_field h a \<noteq> None"
  then have a: "a \<in> set ts" and m: "missing_field h a \<noteq> None" by simp_all
  obtain r where c: "classify_loop ts h tickets_summary_init [] = (h, r)"
    using classify_loop_pair by blast
  show "\<exists>e. categorize_tickets h ts = (h, Inl e) \<and>
           (e = TypeError \<or> e = KeyError ''type'' \<or> e = KeyError ''status'')"
  proof (cases r)
    case (Inl e)
    with c classify_loop_errors [of ts h tickets_summary_init "[]" h e] show ?thesis
      by (simp add: categorize_tickets_def)
  next
    case (Inr p)
    with c a have "missing_field h a = None" by (auto dest: classify_loop_no_missing)
    with m show ?thesis by simp
  qed
qed

text \<open>A risk without a status passes; the ticket without a status that follows raises.\<close>

theorem missing_field_raises_KeyError_witness:
  "list_all (classifiable board_heap) [0, 3] \<and> missing_field board_heap 9 = Some ''status'' \<and>
   categorize_tickets board_heap [0, 3, 9, 10] = (board_heap, Inl (KeyError ''status''))"
proof -
  have c: "list_all (classifiable board_heap) [0, 3]" by code_simp
  have m: "missing_field board_heap 9 = Some ''status''" by code_simp
  from c have "\<forall>b \<in> set [0, 3]. classifiable board_heap b"
    unfolding list_all_iff .
  with missing_field_raises_KeyError [of "[0, 3]" board_heap 9 "''status''" "[10]"] m
  have "categorize_tickets board_heap ([0, 3] @ 9 # [10]) = (board_heap, Inl (KeyError ''status''))"
    by blast
  with c m show ?thesis by simp
qed

text \<open>
  Against C6 as stated: what a ticket without a type raises is the key-lookup fault
  \<open>KeyError\<close>, not a dedicated error for malformed tickets.
\<close>

theorem missing_field_counterexample:
  "snd (categorize_tickets board_heap [0, 10, 1]) = Inl (KeyError ''type'')"
  by code_simp

text \<open>
  C8. \<^verbatim>\<open>categorize_tickets\<close> writes to no ticket: the store after the call, whether it
  returns or raises, is the store before it. What the call builds, the summary and the
  risk list, are fresh lists of references.
\<close>

theorem categorize_keeps_store: "fst (categorize_tickets h ts) = h"
  by (subst categorize_pair) simp

text \<open>
  C10. The status of a risk is never read: changing, adding or removing the \<open>status\<close> field
  of tickets that are risks does not change what \<^verbatim>\<open>categorize_tickets\<close> returns or raises.
  A \<open>KeyError\<close> for the status can only come from a ticket that is not a risk, and a list
  of risks, with or without a status, is classified without an error.
\<close>

theorem risk_ticket_status_never_read:
  "(differs_in_risk_status h h' \<longrightarrow>
      snd (categorize_tickets h' ts) = snd (categorize_tickets h ts))
   \<and> (snd (categorize_tickets h ts) = Inl (KeyError ''status'') \<longrightarrow>
      (\<exists>a \<in> set ts. \<not> is_risk h a \<and> map_of (h a) ''status'' = None))
   \<and> ((\<forall>a \<in> set ts. is_risk h a) \<longrightarrow>
      categorize_tickets h ts = (h, Inr (tickets_summary_init, ts)))"
proof (intro conjI impI)
  assume d: "differs_in_risk_status h h'"
  show "snd (categorize_tickets h' ts) = snd (categorize_tickets h ts)"
    unfolding categorize_snd classify_loop_risk_status [OF d]
      sort_loop_start_key [OF start_key_risk_status [OF d]] ..
next
  assume e: "snd (categorize_tickets h ts) = Inl (KeyError ''status'')"
  obtain r where c: "classify_loop ts h tickets_summary_init [] = (h, r)"
    using classify_loop_pair by blast
  show "\<exists>a \<in> set ts. \<not> is_risk h a \<and> map_of (h a) ''status'' = None"
  proof (cases r)
    case (Inl e')
    with c e have "e' = KeyError ''status''" by (simp add: categorize_snd)
    with c Inl show ?thesis by (auto dest: classify_loop_status_error)
  next
    case (Inr p)
    obtain sm rs where p: "p = (sm, rs)" by (cases p)
    obtain r2 where s: "sort_loop sm h sm = (h, r2)" using sort_loop_pair by blast
    from e c Inr p s obtain e' where "r2 = Inl e'" and "e' = KeyError ''status''"
      by (auto simp: categorize_snd split: sum.splits)
    with s sort_loop_error [of sm h sm h e'] show ?thesis by simp
  qed
next
  assume "\<forall>a \<in> set ts. is_risk h a"
  then have "classify_loop ts h sm rs = (h, Inr (sm, rs @ ts))" for sm rs
    by (induction ts arbitrary: rs)
      (simp_all add: classify_loop_step is_risk_def del: classify_loop.simps(2))
  then have "classify_loop ts h tickets_summary_init [] = (h, Inr (tickets_summary_init, ts))"
    by simp
  moreover have "sort_loop tickets_summary_init h tickets_summary_init =
      (h, Inr tickets_summary_init)"
    by (simp add: tickets_summary_init_def)
  ultimately show "categorize_tickets h ts = (h, Inr (tickets_summary_init, ts))"
    by (simp add: categorize_tickets_def)
qed

text \<open>
  Removing the status of the risk at address 2 changes nothing; the risk at address 3 has
  no status and is classified; the error of the last list comes from the ticket at
  address 9, which is not a risk.
\<close>

theorem risk_ticket_status_never_read_witness:
  "snd (categorize_tickets (board_heap(2 := [(''id'', JInt 60), (''type'', JStr ''Risk'')]))
          [0, 1, 2, 3, 4, 5, 6, 7, 8]) = Inr (board_summary, [2, 3]) \<and>
   snd (categorize_tickets board_heap [0, 3, 9]) = Inl (KeyError ''status'') \<and>
   (\<exists>a \<in> set [0, 3, 9]. \<not> is_risk board_heap a \<and> map_of (board_heap a) ''status'' = None) \<and>
   is_risk board_heap 3 \<and> map_of (board_heap 3) ''status'' = None \<and>
   categorize_tickets board_heap [2, 3] = (board_heap, Inr (tickets_summary_init, [2, 3]))"
proof -
  let ?ts = "[0, 1, 2, 3, 4, 5, 6, 7, 8] :: addr list"
  let ?h = "board_heap(2 := [(''id'', JInt 60), (''type'', JStr ''Risk'')])"
  have s: "snd (categorize_tickets board_heap ?ts) = Inr (board_summary, [2, 3])"
    by code_simp
  have two: "board_heap 2 = [(''id'', JInt 60), (''type'', JStr ''Risk''), (''status'', JStr ''open'')]"
    by code_simp
  have d: "differs_in_risk_status board_heap ?h"
    unfolding differs_in_risk_status_def by (simp add: two is_risk_def)
  from risk_ticket_status_never_read [of board_heap ?h ?ts] d s
  have first: "snd (categorize_tickets ?h ?ts) = Inr (board_summary, [2, 3])"
    by simp
  have e: "snd (categorize_tickets board_heap [0, 3, 9]) = Inl (KeyError ''status'')"
    by code_simp
  from risk_ticket_status_never_read [of board_heap board_heap "[0, 3, 9]"] e
  have second: "\<exists>a \<in> set [0, 3, 9]. \<not> is_risk board_heap a \<and> map_of (board_heap a) ''status'' = None"
    by blast
  have r: "is_risk board_heap 2" "is_risk board_heap 3" "map_of (board_heap 3) ''status'' = None"
    by code_simp+
  from r have "\<forall>a \<in> set [2, 3]. is_risk board_heap a" by simp
  with risk_ticket_status_never_read [of board_heap board_heap "[2, 3]"]
  have third: "categorize_tickets board_heap [2, 3] = (board_heap, Inr (tickets_summary_init, [2, 3]))"
    by blast
  from first e second r third show ?thesis by blast
qed

section \<open>Claims about \<^verbatim>\<open>get_recent_done_tickets\<close>\<close>

text \<open>
  C1. Whenever \<^verbatim>\<open>get_recent_done_tickets\<close> returns a list, the list holds, in the order
  of the audit log, one ticket for each entry that reconciles and nothing else: an entry
  contributes exactly when its action is \<open>update\<close>, its status delta has the new value
  \<open>DONE\<close> and its \<open>auditable_id\<close> equals the id of a ticket of the list; the ticket it
  contributes is the first one with that id. Moreover the call does return when every
  ticket has an id, every entry is well formed and the entries that reconcile have a
  \<open>created_at\<close> that parses: an entry that references an id absent from the ticket list is
  dropped without an error, whatever its \<open>created_at\<close> is.
\<close>

theorem recent_done_iff_entry_reconciles:
  "(get_recent_done_tickets h logs ts = (h', Inr out) \<longrightarrow>
      out = map (\<lambda>log. the (matching_ticket h ts log)) (filter (entry_reconciles h ts) logs))
   \<and> ((\<forall>a \<in> set ts. map_of (h a) ''id'' \<noteq> None) \<and>
       (\<forall>log \<in> set logs. well_formed_log log \<and>
          (entry_reconciles h ts log \<longrightarrow> formatted_created_at log \<noteq> None)) \<longrightarrow>
      snd (get_recent_done_tickets h logs ts) =
        Inr (map (\<lambda>log. the (matching_ticket h ts log)) (filter (entry_reconciles h ts) logs)))"
proof (intro conjI impI)
  assume "get_recent_done_tickets h logs ts = (h', Inr out)"
  then show "out = map (\<lambda>log. the (matching_ticket h ts log)) (filter (entry_reconciles h ts) logs)"
    by (rule get_recent_returns(3))
next
  assume wf: "(\<forall>a \<in> set ts. map_of (h a) ''id'' \<noteq> None) \<and>
       (\<forall>log \<in> set logs. well_formed_log log \<and>
          (entry_reconciles h ts log \<longrightarrow> formatted_created_at log \<noteq> None))"
  then have "planned_writes h ts logs =
     (map (expected_write h ts) (filter (entry_reconciles h ts) logs), None)"
    by (intro planned_writes_well_formed) simp_all
  then show "snd (get_recent_done_tickets h logs ts) =
        Inr (map (\<lambda>log. the (matching_ticket h ts log)) (filter (entry_reconciles h ts) logs))"
    by (simp add: get_recent_plan expected_write_def comp_def)
qed

text \<open>
  On the two sample tickets: the entry for ticket 59 reconciles; the entry for the unknown
  id 999, whose \<open>created_at\<close> is not a timestamp, and the entry that moves ticket 58 to
  review are dropped.
\<close>

theorem recent_done_iff_entry_reconciles_witness:
  "well_formed_log (done_log 59 ''2024-11-20T10:00:00.0'') \<and>
   well_formed_log (done_log 999 ''yesterday'') \<and> well_formed_log review_log \<and>
   entry_reconciles sample_heap [0, 1] (done_log 59 ''2024-11-20T10:00:00.0'') \<and>
   formatted_created_at (done_log 59 ''2024-11-20T10:00:00.0'') = Some ''2024-11-20 10:00:00'' \<and>
   \<not> entry_reconciles sample_heap [0, 1] (done_log 999 ''yesterday'') \<and>
   \<not> entry_reconciles sample_heap [0, 1] review_log \<and>
   snd (get_recent_done_tickets sample_heap
          [done_log 59 ''2024-11-20T10:00:00.0'', done_log 999 ''yesterday'', review_log] [0, 1])
     = Inr [1]"
proof -
  let ?l1 = "done_log 59 ''2024-11-20T10:00:00.0''" and ?l2 = "done_log 999 ''yesterday''"
  have wf: "well_formed_log ?l1" "well_formed_log ?l2" "well_formed_log review_log"
    by code_simp+
  have rec: "entry_reconciles sample_heap [0, 1] ?l1"
    "\<not> entry_reconciles sample_heap [0, 1] ?l2"
    "\<not> entry_reconciles sample_heap [0, 1] review_log"
    by code_simp+
  have cd: "formatted_created_at ?l1 = Some ''2024-11-20 10:00:00''"
    by code_simp
  have ids: "\<forall>a \<in> set [0, 1]. map_of (sample_heap a) ''id'' \<noteq> None"
    by code_simp
  have m: "matching_ticket sample_heap [0, 1] ?l1 = Some 1"
    by code_simp
  from wf rec cd
  have logs: "\<forall>log \<in> set [?l1, ?l2, review_log]. well_formed_log log \<and>
      (entry_reconciles sample_heap [0, 1] log \<longrightarrow> formatted_created_at log \<noteq> None)"
    by simp
  from recent_done_iff_entry_reconciles [of sample_heap "[?l1, ?l2, review_log]" "[0, 1]"]
    ids logs
  have "snd (get_recent_done_tickets sample_heap [?l1, ?l2, review_log] [0, 1]) =
      Inr (map (\<lambda>log. the (matching_ticket sample_heap [0, 1] log))
        (filter (entry_reconciles sample_heap [0, 1]) [?l1, ?l2, review_log]))"
    by blast
  with rec m have "snd (get_recent_done_tickets sample_heap [?l1, ?l2, review_log] [0, 1]) =
      Inr [1]"
    by simp
  with wf rec cd show ?thesis by simp
qed

text \<open>
  C5. Wherever a done update stands in the audit log: when the entries before it run
  without an exception, its \<open>auditable_id\<close> finds the ticket at address \<open>a\<close> and its
  \<open>created_at\<close> parses, the iteration formats the parsed time, stores the result in the
  field \<open>completion_date\<close> of the object at \<open>a\<close> (the object every list that holds the
  address \<open>a\<close> refers to), leaves the other fields and the other objects as they are,
  and appends \<open>a\<close> to the output; the entries after it run on the store so written. In
  the specification's scenario the output is the ticket 59 with
  \<open>completion_date = "2024-11-20 10:00:00"\<close>.
\<close>

theorem done_entry_sets_completion_date:
  assumes "get_recent_done_tickets h pre ts = (h1, Inr out1)"
    and "is_done_update log" and "map_of log ''auditable_id'' = Some tid"
    and "find_ticket h ts tid = Inr (Some a)" and "map_of log ''created_at'' = Some v"
    and "strptime v = Inr dt"
  shows "get_recent_done_tickets h (pre @ log # post) ts =
     (case get_recent_done_tickets (set_completion_date h1 a (strftime dt)) post ts of
        (h', r) \<Rightarrow> (h', map_sum id (\<lambda>out. out1 @ a # out) r)) \<and>
     get_recent_done_tickets h (pre @ [log]) ts =
       (set_completion_date h1 a (strftime dt), Inr (out1 @ [a])) \<and>
     map_of (set_completion_date h1 a (strftime dt) a) ''completion_date''
       = Some (JStr (strftime dt)) \<and>
     (\<forall>k. k \<noteq> ''completion_date'' \<longrightarrow>
          map_of (set_completion_date h1 a (strftime dt) a) k = map_of (h1 a) k) \<and>
     (\<forall>b. b \<noteq> a \<longrightarrow> set_completion_date h1 a (strftime dt) b = h1 b) \<and>
     a \<in> set ts"
proof -
  let ?h = "set_completion_date h1 a (strftime dt)"
  have "reconcile_entry h ts log = Inr (Some (a, strftime dt))"
    using assms(2-6) by (simp add: reconcile_entry_done)
  then have step: "reconcile_entry h1 ts log = Inr (Some (a, strftime dt))"
    by (simp add: get_recent_same_ids_entry [OF assms(1)])
  have general: "get_recent_done_tickets h (pre @ log # logs) ts =
     (case get_recent_done_tickets ?h logs ts of
        (h', r) \<Rightarrow> (h', map_sum id (\<lambda>out. out1 @ a # out) r))" for logs
    unfolding get_recent_append [OF assms(1)] get_recent_single [OF step]
    by (cases "get_recent_done_tickets ?h logs ts") (auto simp: map_sum_def split: sum.splits)
  have last: "get_recent_done_tickets h (pre @ [log]) ts = (?h, Inr (out1 @ [a]))"
    unfolding general by (simp add: get_recent_done_tickets_def)
  from general [of post] last assms(4) show ?thesis
    by (simp add: set_completion_date_def map_of_dict_setitem find_ticket_member)
qed

text \<open>
  The scenario of the specification (ticket 59 lives at address 1), after two entries that
  do not reconcile and before an entry for ticket 58 from the year 999.
\<close>

theorem done_entry_sets_completion_date_witness:
  "get_recent_done_tickets sample_heap
     [review_log, done_log 999 ''yesterday'', done_log 59 ''2024-11-20T10:00:00.0'',
      done_log 58 ''0999-01-02T03:04:05.5''] [0, 1] =
     (set_completion_date (set_completion_date sample_heap 1 ''2024-11-20 10:00:00'') 0
        ''999-01-02 03:04:05'', Inr [1, 0]) \<and>
   get_recent_done_tickets sample_heap
     [review_log, done_log 999 ''yesterday'', done_log 59 ''2024-11-20T10:00:00.0''] [0, 1] =
     (set_completion_date sample_heap 1 ''2024-11-20 10:00:00'', Inr [1]) \<and>
   map_of (set_completion_date sample_heap 1 ''2024-11-20 10:00:00'' 1) ''completion_date''
     = Some (JStr ''2024-11-20 10:00:00'')"
proof -
  let ?pre = "[review_log, done_log 999 ''yesterday'']"
  let ?log = "done_log 59 ''2024-11-20T10:00:00.0''"
  let ?post = "[done_log 58 ''0999-01-02T03:04:05.5'']"
  let ?dt = "\<lparr>year = 2024, month = 11, day = 20, hour = 10, minute = 0, second = 0,
             microsecond = 0\<rparr>"
  let ?h = "set_completion_date sample_heap 1 ''2024-11-20 10:00:00''"
  have pre: "planned_writes sample_heap [0, 1] ?pre = ([], None)" by code_simp
  have first: "get_recent_done_tickets sample_heap ?pre [0, 1] = (sample_heap, Inr [])"
    unfolding get_recent_plan pre by (simp add: apply_writes_def)
  have q: "is_done_update ?log" by code_simp
  have i: "map_of ?log ''auditable_id'' = Some (JInt 59)" by code_simp
  have f: "find_ticket sample_heap [0, 1] (JInt 59) = Inr (Some 1)" by code_simp
  have c: "map_of ?log ''created_at'' = Some (JStr ''2024-11-20T10:00:00.0'')" by code_simp
  have p: "strptime (JStr ''2024-11-20T10:00:00.0'') = Inr ?dt" by code_simp
  have s: "strftime ?dt = ''2024-11-20 10:00:00''" by code_simp
  have post: "planned_writes ?h [0, 1] ?post = ([(0, ''999-01-02 03:04:05'')], None)"
    by code_simp
  have rest: "get_recent_done_tickets ?h ?post [0, 1] =
      (set_completion_date ?h 0 ''999-01-02 03:04:05'', Inr [0])"
    unfolding get_recent_plan post by (simp add: apply_writes_def)
  from done_entry_sets_completion_date [OF first q i f c p, of ?post]
  show ?thesis
    unfolding s rest by simp
qed

text \<open>
  C3 (as the code has it). There is no handler around the parsing of line 160. When an
  entry is a done update, its \<open>auditable_id\<close> finds a ticket and its \<open>created_at\<close> is a
  string that does not parse, the call raises \<open>ValueError\<close> at that entry: no list is
  returned, the entries after it are not processed, and the store is left as the entries
  before it have written it.
\<close>

theorem unparsable_created_at_aborts:
  assumes "get_recent_done_tickets h pre ts = (h1, Inr out)"
    and "is_done_update log" and "map_of log ''auditable_id'' = Some tid"
    and "find_ticket h ts tid = Inr (Some a)"
    and "map_of log ''created_at'' = Some (JStr s)" and "strptime (JStr s) = Inl e"
  shows "get_recent_done_tickets h (pre @ log # post) ts = (h1, Inl ValueError)"
proof -
  from assms(6) have e: "e = ValueError" by (rule strptime_string_error)
  have step: "reconcile_entry h ts log = Inl ValueError"
    using assms(2-6) e by (simp add: reconcile_entry_done)
  obtain ws r where p: "planned_writes h ts pre = (ws, r)"
    by (cases "planned_writes h ts pre")
  with assms(1) have r: "r = None" and h1: "h1 = apply_writes ws h"
    by (auto simp: get_recent_plan split: option.splits)
  from p r step have "planned_writes h ts (pre @ log # post) = (ws, Some ValueError)"
    by (simp add: planned_writes_append)
  then show ?thesis by (simp add: get_recent_plan h1)
qed

text \<open>
  The entry for ticket 58 is processed, the unparsable entry for ticket 59 raises, and the
  last entry is never reached.
\<close>

theorem unparsable_created_at_aborts_witness:
  "get_recent_done_tickets sample_heap
     [done_log 58 ''2024-11-20T10:00:00.0'', done_log 59 ''20 November 2024'',
      done_log 59 ''2024-11-21T08:15:30.250''] [0, 1] =
     (set_completion_date sample_heap 0 ''2024-11-20 10:00:00'', Inl ValueError)"
proof -
  let ?log = "done_log 59 ''20 November 2024''"
  have pre: "planned_writes sample_heap [0, 1] [done_log 58 ''2024-11-20T10:00:00.0''] =
      ([(0, ''2024-11-20 10:00:00'')], None)"
    by code_simp
  have first: "get_recent_done_tickets sample_heap [done_log 58 ''2024-11-20T10:00:00.0''] [0, 1] =
      (set_completion_date sample_heap 0 ''2024-11-20 10:00:00'', Inr [0])"
    unfolding get_recent_plan pre by (simp add: apply_writes_def)
  have q: "is_done_update ?log" by code_simp
  have i: "map_of ?log ''auditable_id'' = Some (JInt 59)" by code_simp
  have f: "find_ticket sample_heap [0, 1] (JInt 59) = Inr (Some 1)" by code_simp
  have c: "map_of ?log ''created_at'' = Some (JStr ''20 November 2024'')" by code_simp
  have p: "strptime (JStr ''20 November 2024'') = Inl ValueError" by code_simp
  from unparsable_created_at_aborts [OF first q i f c p,
      of "[done_log 59 ''2024-11-21T08:15:30.250'']"]
  show ?thesis by simp
qed

text \<open>
  Against C3 as stated: with an unparsable first entry the call does not skip it and
  return the ticket of the second entry; it raises.
\<close>

theorem unparsable_created_at_counterexample:
  "snd (get_recent_done_tickets sample_heap
     [done_log 59 ''20 November 2024'', done_log 58 ''2024-11-20T10:00:00.0''] [0, 1])
   = Inl ValueError"
  by code_simp

text \<open>
  C7. A call that returns has appended the ticket at address \<open>a\<close> once for each entry that
  reconciles to it (no deduplication, always the same object); if there is such an entry,
  the field \<open>completion_date\<close> of the ticket holds, after the call, the formatted
  \<open>created_at\<close> of the last of them in input order, and otherwise the ticket is as it was;
  no other field of the ticket changes. In particular, when all the done updates of the
  log carry one \<open>auditable_id\<close> and that id finds the ticket at \<open>a\<close>, the output is \<open>a\<close>
  repeated once per done update.
\<close>

theorem repeated_done_entries:
  assumes "get_recent_done_tickets h logs ts = (h', Inr out)"
  shows "filter (\<lambda>x. x = a) out = replicate (length (entries_for h ts a logs)) a \<and>
     (entries_for h ts a logs \<noteq> [] \<longrightarrow>
        map_of (h' a) ''completion_date'' =
          Some (JStr (the (formatted_created_at (last (entries_for h ts a logs)))))) \<and>
     (entries_for h ts a logs = [] \<longrightarrow> h' a = h a) \<and>
     (\<forall>k. k \<noteq> ''completion_date'' \<longrightarrow> map_of (h' a) k = map_of (h a) k) \<and>
     ((\<forall>log \<in> set logs. is_done_update log \<longrightarrow> map_of log ''auditable_id'' = Some tid) \<and>
      find (id_matches h tid) ts = Some a \<longrightarrow>
        entries_for h ts a logs = filter is_done_update logs \<and>
        out = replicate (length (filter is_done_update logs)) a)"
proof -
  let ?rec = "filter (entry_reconciles h ts) logs"
  let ?ws = "map (expected_write h ts) ?rec"
  let ?for = "entries_for h ts a logs"
  note run = get_recent_returns [OF assms]
  have out: "out = map fst ?ws" using run(3) by (simp add: expected_write_def comp_def)
  have h': "h' = apply_writes ?ws h" by (rule run(2))
  have "filter (\<lambda>x. x = a) out = map fst (filter (\<lambda>w. fst w = a) ?ws)"
    unfolding out by (simp add: filter_map comp_def)
  also have "filter (\<lambda>w. fst w = a) ?ws = map (expected_write h ts) ?for"
    by (simp add: filter_map comp_def entries_for_conj)
  also have "map fst (map (expected_write h ts) ?for) = replicate (length ?for) a"
    by (simp add: map_replicate_const [symmetric] entries_for_def reconciles_to_def
        expected_write_def)
  finally have count: "filter (\<lambda>x. x = a) out = replicate (length ?for) a" .
  have look: "map_of (rev ?ws) a =
      (if ?for = [] then None else Some (the (formatted_created_at (last ?for))))"
    unfolding map_of_rev_writes entries_for_writes by (simp add: expected_write_def)
  have at: "h' a = (if ?for = [] then h a
      else dict_setitem (h a) ''completion_date''
             (JStr (the (formatted_created_at (last ?for)))))"
    unfolding h' apply_writes_at look by simp
  have same: "entries_for h ts a logs = filter is_done_update logs \<and>
        out = replicate (length (filter is_done_update logs)) a"
    if one: "\<forall>log \<in> set logs. is_done_update log \<longrightarrow> map_of log ''auditable_id'' = Some tid"
      and found: "find (id_matches h tid) ts = Some a"
  proof -
    from found have a: "a \<in> set ts" "id_matches h tid a" by (auto dest: find_Some_holds)
    have rec: "entry_reconciles h ts log = is_done_update log" if "log \<in> set logs" for log
      using that one a by (auto simp: entry_reconciles_def references_id)
    have m: "matching_ticket h ts log = Some a" if "log \<in> set logs" "is_done_update log" for log
      using that one found by (auto simp: matching_ticket_def references_id)
    have all: "?rec = filter is_done_update logs"
      by (rule filter_cong) (simp_all add: rec)
    have ents: "?for = filter is_done_update logs"
      unfolding entries_for_def
      by (rule filter_cong) (auto simp: reconciles_to_def rec m)
    have "out = map (\<lambda>log. a) (filter is_done_update logs)"
      unfolding run(3) all by (rule map_cong) (simp_all add: m)
    with ents show ?thesis by (simp add: map_replicate_const)
  qed
  from count at same show ?thesis
    by (auto simp: map_of_dict_setitem)
qed

text \<open>
  Two done updates of ticket 59 around a done update of ticket 58 and an update that is
  not one; then the same log without the entry for ticket 58.
\<close>

theorem repeated_done_entries_witness:
  "get_recent_done_tickets sample_heap
     [done_log 59 ''2024-11-20T10:00:00.0'', done_log 58 ''2024-11-20T17:45:00.0'', review_log,
      done_log 59 ''2024-11-21T08:15:30.250''] [0, 1] =
     (apply_writes
        [(1, ''2024-11-20 10:00:00''), (0, ''2024-11-20 17:45:00''),
         (1, ''2024-11-21 08:15:30'')] sample_heap,
      Inr [1, 0, 1]) \<and>
   filter (\<lambda>x. x = 1) [1, 0, 1] = replicate 2 (1 :: addr) \<and>
   map_of
     (apply_writes
        [(1, ''2024-11-20 10:00:00''), (0, ''2024-11-20 17:45:00''),
         (1, ''2024-11-21 08:15:30'')] sample_heap 1) ''completion_date''
     = Some (JStr ''2024-11-21 08:15:30'') \<and>
   map_of (sample_heap 1) ''completion_date'' = None \<and>
   get_recent_done_tickets sample_heap
     [done_log 59 ''2024-11-20T10:00:00.0'', review_log, done_log 59 ''2024-11-21T08:15:30.250'']
     [0, 1] =
     (apply_writes [(1, ''2024-11-20 10:00:00''), (1, ''2024-11-21 08:15:30'')] sample_heap,
      Inr (replicate 2 1))"
proof -
  let ?l1 = "done_log 59 ''2024-11-20T10:00:00.0''"
  let ?l2 = "done_log 58 ''2024-11-20T17:45:00.0''"
  let ?l4 = "done_log 59 ''2024-11-21T08:15:30.250''"
  let ?logs = "[?l1, ?l2, review_log, ?l4]"
  let ?ws = "[(1, ''2024-11-20 10:00:00''), (0, ''2024-11-20 17:45:00''),
      (1, ''2024-11-21 08:15:30'')] :: (addr \<times> string) list"
  have p: "planned_writes sample_heap [0, 1] ?logs = (?ws, None)" by code_simp
  have run: "get_recent_done_tickets sample_heap ?logs [0, 1] =
      (apply_writes ?ws sample_heap, Inr [1, 0, 1])"
    unfolding get_recent_plan p by simp
  have e: "entries_for sample_heap [0, 1] 1 ?logs = [?l1, ?l4]" by code_simp
  have c: "formatted_created_at ?l4 = Some ''2024-11-21 08:15:30''" by code_simp
  have before: "map_of (sample_heap 1) ''completion_date'' = None" by code_simp
  have len: "length [?l1, ?l4] = 2" by simp
  from repeated_done_entries [OF run, of 1 "JInt 59", THEN conjunct1]
  have count: "filter (\<lambda>x. x = 1) [1, 0, 1] = replicate 2 (1 :: addr)"
    unfolding e len .
  from repeated_done_entries [OF run, of 1 "JInt 59", THEN conjunct2, THEN conjunct1]
  have date: "map_of (apply_writes ?ws sample_heap 1) ''completion_date'' =
      Some (JStr ''2024-11-21 08:15:30'')"
    unfolding e by (simp add: c)
  let ?logs' = "[?l1, review_log, ?l4]"
  let ?ws' = "[(1, ''2024-11-20 10:00:00''), (1, ''2024-11-21 08:15:30'')] :: (addr \<times> string) list"
  have p': "planned_writes sample_heap [0, 1] ?logs' = (?ws', None)" by code_simp
  have run': "get_recent_done_tickets sample_heap ?logs' [0, 1] =
      (apply_writes ?ws' sample_heap, Inr [1, 1])"
    unfolding get_recent_plan p' by simp
  have d: "is_done_update ?l1" "\<not> is_done_update review_log" "is_done_update ?l4"
    by code_simp+
  have i: "map_of ?l1 ''auditable_id'' = Some (JInt 59)"
    "map_of ?l4 ''auditable_id'' = Some (JInt 59)"
    by code_simp+
  from d i have one: "\<forall>log \<in> set ?logs'. is_done_update log \<longrightarrow>
      map_of log ''auditable_id'' = Some (JInt 59)"
    by simp
  have f: "find (id_matches sample_heap (JInt 59)) [0, 1] = Some 1" by code_simp
  have fl: "filter is_done_update ?logs' = [?l1, ?l4]" by code_simp
  from repeated_done_entries [OF run', of 1 "JInt 59",
      THEN conjunct2, THEN conjunct2, THEN conjunct2, THEN conjunct2] one f
  have "[1, 1] = replicate (length (filter is_done_update ?logs')) (1 :: addr)"
    by blast
  then have "[1, 1] = replicate 2 (1 :: addr)"
    unfolding fl len .
  with run' have same: "get_recent_done_tickets sample_heap ?logs' [0, 1] =
      (apply_writes ?ws' sample_heap, Inr (replicate 2 1))"
    by simp
  from run count date before same show ?thesis by (simp only:)
qed

text \<open>
  C9. A second run on the same audit log and ticket list, started on the store the first
  run has left, writes the same completion dates (the store does not change) and returns
  the same list.
\<close>

theorem reconcile_twice:
  assumes "get_recent_done_tickets h logs ts = (h1, Inr out)"
  shows "get_recent_done_tickets h1 logs ts = (h1, Inr out)"
proof -
  obtain ws r where p: "planned_writes h ts logs = (ws, r)"
    by (cases "planned_writes h ts logs")
  with assms have r: "r = None" and h1: "h1 = apply_writes ws h" and out: "out = map fst ws"
    by (auto simp: get_recent_plan split: option.splits)
  have "same_ids h h1" unfolding h1 by (rule same_ids_apply_writes)
  then have "planned_writes h1 ts logs = (ws, None)"
    using p r by (simp add: planned_writes_same_ids)
  then show ?thesis
    by (simp add: get_recent_plan h1 out apply_writes_idem)
qed

text \<open>Three done updates over the two sample tickets, run twice.\<close>

theorem reconcile_twice_witness:
  "get_recent_done_tickets sample_heap
     [done_log 59 ''2024-11-20T10:00:00.0'', done_log 58 ''2024-11-21T08:15:30.250'',
      done_log 59 ''2024-11-22T23:59:59.999999''] [0, 1] =
     (apply_writes
        [(1, ''2024-11-20 10:00:00''), (0, ''2024-11-21 08:15:30''),
         (1, ''2024-11-22 23:59:59'')] sample_heap,
      Inr [1, 0, 1]) \<and>
   get_recent_done_tickets
     (apply_writes
        [(1, ''2024-11-20 10:00:00''), (0, ''2024-11-21 08:15:30''),
         (1, ''2024-11-22 23:59:59'')] sample_heap)
     [done_log 59 ''2024-11-20T10:00:00.0'', done_log 58 ''2024-11-21T08:15:30.250'',
      done_log 59 ''2024-11-22T23:59:59.999999''] [0, 1] =
     (apply_writes
        [(1, ''2024-11-20 10:00:00''), (0, ''2024-11-21 08:15:30''),
         (1, ''2024-11-22 23:59:59'')] sample_heap,
      Inr [1, 0, 1])"
proof -
  let ?logs = "[done_log 59 ''2024-11-20T10:00:00.0'', done_log 58 ''2024-11-21T08:15:30.250'',
      done_log 59 ''2024-11-22T23:59:59.999999'']"
  have p: "planned_writes sample_heap [0, 1] ?logs =
      ([(1, ''2024-11-20 10:00:00''), (0, ''2024-11-21 08:15:30''),
        (1, ''2024-11-22 23:59:59'')], None)"
    by code_simp
  have run: "get_recent_done_tickets sample_heap ?logs [0, 1] =
     (apply_writes
        [(1, ''2024-11-20 10:00:00''), (0, ''2024-11-21 08:15:30''),
         (1, ''2024-11-22 23:59:59'')] sample_heap,
      Inr [1, 0, 1])"
    unfolding get_recent_plan p by simp
  from reconcile_twice [OF run] run show ?thesis by simp
qed

end
